theory Spec2Isabelle
  imports Main "HOL-Library.Word" "HOL-Library.Sublist"
begin

unbundle bit_operations_syntax

section \<open>JavaScript strings\<close>

text \<open>
  A JavaScript string is a sequence of UTF-16 code units. String literals of the
  source are written \<open>js ''...''\<close>.
\<close>

type_synonym jsstring = "16 word list"

definition js :: "string \<Rightarrow> jsstring" where
  "js s = map of_char s"

text \<open>
  \<open>String.prototype.trim\<close> removes the code points of the productions WhiteSpace
  and LineTerminator from both ends. All of them are single code units.
\<close>

definition isWhiteSpace :: "16 word \<Rightarrow> bool" where
  "isWhiteSpace c \<longleftrightarrow>
     c \<in> set [0x0009, 0x000A, 0x000B, 0x000C, 0x000D, 0x0020, 0x00A0, 0x1680,
              0x2000, 0x2001, 0x2002, 0x2003, 0x2004, 0x2005, 0x2006, 0x2007,
              0x2008, 0x2009, 0x200A, 0x2028, 0x2029, 0x202F, 0x205F, 0x3000, 0xFEFF]"

definition trim :: "jsstring \<Rightarrow> jsstring" where
  "trim s = rev (dropWhile isWhiteSpace (rev (dropWhile isWhiteSpace s)))"






text \<open>The decimal digits of a non-negative integer, as a template literal prints it.\<close>

fun digits :: "nat \<Rightarrow> jsstring" where
  "digits n = (if n < 10 then [0x30 + of_nat n]
               else digits (n div 10) @ [0x30 + of_nat (n mod 10)])"

declare digits.simps [simp del]

section \<open>Notes\<close>

record Note =
  id_n :: jsstring
  title_n :: jsstring
  body_n :: jsstring
  updatedAt :: jsstring

text \<open>
  React compares the dependencies of an effect with \<open>Object.is\<close>, which on objects
  and arrays is identity. A note object is therefore a pair of its reference (note
  objects are numbered in the order of their creation) and its fields.
\<close>

type_synonym 'a obj = "nat \<times> 'a"

definition STORAGE_KEY :: jsstring where
  "STORAGE_KEY = js ''simple_notes__v1''"

definition NEW :: jsstring where
  "NEW = js ''NEW''"

definition Untitled :: jsstring where
  "Untitled = js ''Untitled''"

text \<open>
  \<open>generateId\<close>: the arguments are the value of \<open>Date.now()\<close> and the string
  \<open>Math.random().toString(16)\<close> of the call.
\<close>

definition generateId :: "nat \<Rightarrow> jsstring \<Rightarrow> jsstring" where
  "generateId dateNow random16 = digits dateNow @ js ''_'' @ drop 2 random16"

section \<open>JSON.stringify on the note collection\<close>

definition hexDigit :: "16 word \<Rightarrow> 16 word" where
  "hexDigit d = (if d < 10 then 0x30 + d else 0x57 + d)"

definition unicodeEscape :: "16 word \<Rightarrow> jsstring" where
  "unicodeEscape c =
     [0x5C, 0x75, hexDigit (drop_bit 12 c), hexDigit (drop_bit 8 c AND 0xF),
      hexDigit (drop_bit 4 c AND 0xF), hexDigit (c AND 0xF)]"

definition isLeadingSurrogate :: "16 word \<Rightarrow> bool" where
  "isLeadingSurrogate c \<longleftrightarrow> 0xD800 \<le> c \<and> c \<le> 0xDBFF"

definition isTrailingSurrogate :: "16 word \<Rightarrow> bool" where
  "isTrailingSurrogate c \<longleftrightarrow> 0xDC00 \<le> c \<and> c \<le> 0xDFFF"

text \<open>
  The short escapes of QuoteJSONString: backspace, tab, line feed, form feed,
  carriage return, double quote and backslash.
\<close>

definition shortEscape :: "16 word \<Rightarrow> 16 word option" where
  "shortEscape c =
     (if c = 0x08 then Some 0x62 else if c = 0x09 then Some 0x74
      else if c = 0x0A then Some 0x6E else if c = 0x0C then Some 0x66
      else if c = 0x0D then Some 0x72 else if c = 0x22 then Some 0x22
      else if c = 0x5C then Some 0x5C else None)"

text \<open>
  QuoteJSONString walks the code points of the string: a leading surrogate followed
  by a trailing one is one code point and is copied; a surrogate on its own is
  written as a \<open>\uXXXX\<close> escape, like the control characters without a short escape.
\<close>

fun quoteUnits :: "jsstring \<Rightarrow> jsstring" where
  "quoteUnits [] = []"
| "quoteUnits (c # cs) =
     (case shortEscape c of
        Some e \<Rightarrow> [0x5C, e] @ quoteUnits cs
      | None \<Rightarrow>
          if c < 0x20 then unicodeEscape c @ quoteUnits cs
          else if isLeadingSurrogate c then
            (case cs of
               [] \<Rightarrow> unicodeEscape c
             | d # ds \<Rightarrow>
                 if isTrailingSurrogate d then c # d # quoteUnits ds
                 else unicodeEscape c @ quoteUnits cs)
          else if isTrailingSurrogate c then unicodeEscape c @ quoteUnits cs
          else c # quoteUnits cs)"

definition quoteJSONString :: "jsstring \<Rightarrow> jsstring" where
  "quoteJSONString s = [0x22] @ quoteUnits s @ [0x22]"

definition stringifyNote :: "Note \<Rightarrow> jsstring" where
  "stringifyNote n =
     js ''{'' @ quoteJSONString (js ''id'') @ js '':'' @ quoteJSONString (id_n n) @
     js '','' @ quoteJSONString (js ''title'') @ js '':'' @ quoteJSONString (title_n n) @
     js '','' @ quoteJSONString (js ''body'') @ js '':'' @ quoteJSONString (body_n n) @
     js '','' @ quoteJSONString (js ''updatedAt'') @ js '':'' @ quoteJSONString (updatedAt n) @
     js ''}''"

fun joinComma :: "jsstring list \<Rightarrow> jsstring" where
  "joinComma [] = []"
| "joinComma [x] = x"
| "joinComma (x # y # ys) = x @ js '','' @ joinComma (y # ys)"

text \<open>
  \<open>JSON.stringify(notes)\<close> for the array held in the state \<open>notes\<close>: every element
  is an object with the own properties \<open>id\<close>, \<open>title\<close>, \<open>body\<close> and \<open>updatedAt\<close>, in
  this order, each a string.
\<close>

definition JSON_stringify :: "Note list \<Rightarrow> jsstring" where
  "JSON_stringify ns = js ''['' @ joinComma (map stringifyNote ns) @ js '']''"

section \<open>The storage\<close>

text \<open>
  \<open>window.localStorage\<close>, restricted to the one key the program uses: the value
  stored under \<open>STORAGE_KEY\<close>, if any. Reading and writing throw when the storage is
  not accessible; writing throws when the key and the value do not fit the quota.
\<close>

record storage =
  item :: "jsstring option"
  quota :: nat
  accessible :: bool

datatype exn = SecurityError | QuotaExceededError | SyntaxError | TypeError

definition getItem :: "storage \<Rightarrow> exn + jsstring option" where
  "getItem s = (if accessible s then Inr (item s) else Inl SecurityError)"

definition setItem :: "storage \<Rightarrow> jsstring \<Rightarrow> exn + storage" where
  "setItem s v =
     (if \<not> accessible s then Inl SecurityError
      else if quota s < length STORAGE_KEY + length v then Inl QuotaExceededError
      else Inr (s\<lparr>item := Some v\<rparr>))"

text \<open>\<open>saveNotesToStorage\<close>: the \<open>catch\<close> block ignores every exception.\<close>

definition saveNotesToStorage :: "Note list \<Rightarrow> storage \<Rightarrow> storage" where
  "saveNotesToStorage ns s =
     (case setItem s (JSON_stringify ns) of Inl e \<Rightarrow> s | Inr s' \<Rightarrow> s')"

section \<open>JSON.parse\<close>

text \<open>
  The values \<open>JSON.parse\<close> builds. A number is kept as the text of its literal:
  its value is a double, and nothing here depends on it.
\<close>

datatype json =
    JNull
  | JBool bool
  | JNumber jsstring
  | JString jsstring
  | JArray "json list"
  | JObject "(jsstring \<times> json) list"

definition isJSONWhiteSpace :: "16 word \<Rightarrow> bool" where
  "isJSONWhiteSpace c \<longleftrightarrow> c = 0x09 \<or> c = 0x0A \<or> c = 0x0D \<or> c = 0x20"

definition skipWS :: "jsstring \<Rightarrow> jsstring" where
  "skipWS s = dropWhile isJSONWhiteSpace s"

text \<open>The four hexadecimal digits of a \<open>\uXXXX\<close> escape, in either case.\<close>

definition hexValue :: "16 word \<Rightarrow> 16 word option" where
  "hexValue c =
     (if 0x30 \<le> c \<and> c \<le> 0x39 then Some (c - 0x30)
      else if 0x61 \<le> c \<and> c \<le> 0x66 then Some (c - 0x57)
      else if 0x41 \<le> c \<and> c \<le> 0x46 then Some (c - 0x37)
      else None)"

definition hex4 :: "16 word \<Rightarrow> 16 word \<Rightarrow> 16 word \<Rightarrow> 16 word \<Rightarrow> 16 word option" where
  "hex4 a b c d =
     (case (hexValue a, hexValue b, hexValue c, hexValue d) of
        (Some x, Some y, Some z, Some w) \<Rightarrow>
          Some (push_bit 12 x OR push_bit 8 y OR push_bit 4 z OR w)
      | _ \<Rightarrow> None)"

definition unescape :: "16 word \<Rightarrow> 16 word option" where
  "unescape e =
     (if e = 0x22 then Some 0x22 else if e = 0x5C then Some 0x5C
      else if e = 0x2F then Some 0x2F else if e = 0x62 then Some 0x08
      else if e = 0x66 then Some 0x0C else if e = 0x6E then Some 0x0A
      else if e = 0x72 then Some 0x0D else if e = 0x74 then Some 0x09
      else None)"

definition consTo :: "'a \<Rightarrow> ('a list \<times> 'b) option \<Rightarrow> ('a list \<times> 'b) option" where
  "consTo x r = (case r of None \<Rightarrow> None | Some (xs, rest) \<Rightarrow> Some (x # xs, rest))"

text \<open>
  The characters of a string literal after its opening quote, up to the closing
  quote: \<open>None\<close> is a syntax error (no closing quote, a control character, a wrong
  escape). The result is the string and the text after the closing quote.
\<close>

fun parseChars :: "jsstring \<Rightarrow> (jsstring \<times> jsstring) option" where
  "parseChars [] = None"
| "parseChars (c # cs) =
     (if c = 0x22 then Some ([], cs)
      else if c = 0x5C then
        (case cs of
           [] \<Rightarrow> None
         | e # r \<Rightarrow>
             if e = 0x75 then
               (case r of
                  h1 # h2 # h3 # h4 # r' \<Rightarrow>
                    (case hex4 h1 h2 h3 h4 of
                       None \<Rightarrow> None
                     | Some u \<Rightarrow> consTo u (parseChars r'))
                | _ \<Rightarrow> None)
             else
               (case unescape e of
                  None \<Rightarrow> None
                | Some u \<Rightarrow> consTo u (parseChars r)))
      else if c < 0x20 then None
      else consTo c (parseChars cs))"

text \<open>
  A number literal: an optional minus, \<open>0\<close> or digits, an optional fraction, an
  optional exponent.
\<close>

definition isDigit :: "16 word \<Rightarrow> bool" where
  "isDigit c \<longleftrightarrow> 0x30 \<le> c \<and> c \<le> 0x39"

definition parseDigits :: "jsstring \<Rightarrow> (jsstring \<times> jsstring) option" where
  "parseDigits s =
     (if takeWhile isDigit s = [] then None
      else Some (takeWhile isDigit s, dropWhile isDigit s))"

definition parseInt :: "jsstring \<Rightarrow> (jsstring \<times> jsstring) option" where
  "parseInt s =
     (case s of
        [] \<Rightarrow> None
      | c # r \<Rightarrow> if c = 0x30 then Some ([c], r) else parseDigits s)"

definition parseFrac :: "jsstring \<Rightarrow> (jsstring \<times> jsstring) option" where
  "parseFrac s =
     (case s of
        [] \<Rightarrow> Some ([], s)
      | c # r \<Rightarrow>
          if c = 0x2E then consTo c (parseDigits r) else Some ([], s))"

definition parseExp :: "jsstring \<Rightarrow> (jsstring \<times> jsstring) option" where
  "parseExp s =
     (case s of
        [] \<Rightarrow> Some ([], s)
      | c # r \<Rightarrow>
          if c = 0x65 \<or> c = 0x45 then
            (case r of
               [] \<Rightarrow> None
             | g # r' \<Rightarrow>
                 if g = 0x2B \<or> g = 0x2D then consTo c (consTo g (parseDigits r'))
                 else consTo c (parseDigits r))
          else Some ([], s))"

definition parseNumber :: "jsstring \<Rightarrow> (jsstring \<times> jsstring) option" where
  "parseNumber s =
     (let (sign, s0) = (case s of [] \<Rightarrow> ([], s) | c # r \<Rightarrow> if c = 0x2D then ([c], r) else ([], s)) in
      case parseInt s0 of
        None \<Rightarrow> None
      | Some (i, s1) \<Rightarrow>
          (case parseFrac s1 of
             None \<Rightarrow> None
           | Some (f, s2) \<Rightarrow>
               (case parseExp s2 of
                  None \<Rightarrow> None
                | Some (e, s3) \<Rightarrow> Some (sign @ i @ f @ e, s3))))"

definition parseLiteral :: "jsstring \<Rightarrow> (json \<times> jsstring) option" where
  "parseLiteral s =
     (if take 4 s = js ''true'' then Some (JBool True, drop 4 s)
      else if take 5 s = js ''false'' then Some (JBool False, drop 5 s)
      else if take 4 s = js ''null'' then Some (JNull, drop 4 s)
      else map_option (\<lambda>(t, r). (JNumber t, r)) (parseNumber s))"

text \<open>
  A value, the elements of an array after its first bracket, and the members of an
  object after its first brace. Each gives what it has read and the text that
  follows.
\<close>

function parseValue :: "jsstring \<Rightarrow> (json \<times> jsstring) option"
  and parseElements :: "jsstring \<Rightarrow> (json list \<times> jsstring) option"
  and parseMembers :: "jsstring \<Rightarrow> ((jsstring \<times> json) list \<times> jsstring) option"
where
  "parseValue s =
     (case skipWS s of
        [] \<Rightarrow> None
      | c # r \<Rightarrow>
          if c = 0x5B then
            (case skipWS r of
               [] \<Rightarrow> None
             | d # r' \<Rightarrow>
                 if d = 0x5D then Some (JArray [], r')
                 else map_option (\<lambda>(vs, t). (JArray vs, t)) (parseElements r))
          else if c = 0x7B then
            (case skipWS r of
               [] \<Rightarrow> None
             | d # r' \<Rightarrow>
                 if d = 0x7D then Some (JObject [], r')
                 else map_option (\<lambda>(ms, t). (JObject ms, t)) (parseMembers r))
          else if c = 0x22 then map_option (\<lambda>(t, r'). (JString t, r')) (parseChars r)
          else parseLiteral (c # r))"
| "parseElements s =
     (case parseValue s of
        None \<Rightarrow> None
      | Some (v, r) \<Rightarrow>
          (case skipWS r of
             [] \<Rightarrow> None
           | c # r' \<Rightarrow>
               if c = 0x2C then consTo v (parseElements r')
               else if c = 0x5D then Some ([v], r')
               else None))"
| "parseMembers s =
     (case skipWS s of
        [] \<Rightarrow> None
      | q # r \<Rightarrow>
          if q \<noteq> 0x22 then None
          else
            (case parseChars r of
               None \<Rightarrow> None
             | Some (k, r1) \<Rightarrow>
                 (case skipWS r1 of
                    [] \<Rightarrow> None
                  | c # r2 \<Rightarrow>
                      if c \<noteq> 0x3A then None
                      else
                        (case parseValue r2 of
                           None \<Rightarrow> None
                         | Some (v, r3) \<Rightarrow>
                             (case skipWS r3 of
                                [] \<Rightarrow> None
                              | d # r4 \<Rightarrow>
                                  if d = 0x2C then consTo (k, v) (parseMembers r4)
                                  else if d = 0x7D then Some ([(k, v)], r4)
                                  else None)))))"
  by pat_completeness auto


text \<open>
  Termination: each parser returns a text shorter than the one it was given. For
  the three mutually recursive ones this is first proved on their domain.
\<close>

lemma skipWS_Cons: "skipWS s = c # r \<Longrightarrow> length r < length s"
proof -
  assume a: "skipWS s = c # r"
  have "length (skipWS s) \<le> length s"
    unfolding skipWS_def by (rule length_dropWhile_le)
  with a show ?thesis by simp
qed

lemma consTo_Some: "consTo x p = Some (ys, r) \<longleftrightarrow> (\<exists>xs. p = Some (xs, r) \<and> ys = x # xs)"
  by (auto simp add: consTo_def split: option.splits)

lemma parseChars_shorter: "parseChars s = Some (t, r) \<Longrightarrow> length r < length s"
proof (induction s arbitrary: t rule: length_induct)
  case (1 s)
  then have IH: "\<And>x u. length x < length s \<Longrightarrow> parseChars x = Some (u, r) \<Longrightarrow> length r < length x"
    by blast
  from "1.prems" show ?case
    by (cases s) (auto simp add: consTo_Some split: if_splits list.splits option.splits dest!: IH [rotated])
qed

lemma parseDigits_shorter: "parseDigits s = Some (t, r) \<Longrightarrow> length r < length s"
proof -
  assume "parseDigits s = Some (t, r)"
  then have n: "takeWhile isDigit s \<noteq> []" and r: "r = dropWhile isDigit s"
    by (auto simp add: parseDigits_def split: if_splits)
  have "length (takeWhile isDigit s) + length (dropWhile isDigit s) = length s"
    by (metis length_append takeWhile_dropWhile_id)
  with n r show ?thesis by (cases "takeWhile isDigit s") auto
qed

lemma parseInt_shorter: "parseInt s = Some (t, r) \<Longrightarrow> length r < length s"
  by (auto simp add: parseInt_def split: list.splits if_splits dest: parseDigits_shorter)

lemma parseFrac_shorter: "parseFrac s = Some (t, r) \<Longrightarrow> length r \<le> length s"
  by (auto simp add: parseFrac_def consTo_Some split: list.splits if_splits dest: parseDigits_shorter)

lemma parseExp_shorter: "parseExp s = Some (t, r) \<Longrightarrow> length r \<le> length s"
  by (auto simp add: parseExp_def consTo_Some split: list.splits if_splits dest: parseDigits_shorter)

lemma parseNumber_shorter: "parseNumber s = Some (t, r) \<Longrightarrow> length r < length s"
  by (auto simp add: parseNumber_def Let_def split: list.splits if_splits option.splits prod.splits
      dest!: parseInt_shorter parseFrac_shorter parseExp_shorter)

lemma take_eq_shorter: "take n s = t \<Longrightarrow> length t = n \<Longrightarrow> 0 < n \<Longrightarrow> length (drop n s) < length s"
  by (cases "n \<le> length s") auto

lemma parseLiteral_shorter: "parseLiteral s = Some (v, r) \<Longrightarrow> length r < length s"
  by (auto simp add: parseLiteral_def split: if_splits
      dest: parseNumber_shorter take_eq_shorter [where n = 4] take_eq_shorter [where n = 5]
      simp add: js_def)


lemma parse_shorter_dom:
  "parseValue_parseElements_parseMembers_dom (Inl s) \<Longrightarrow>
     (\<And>v r. parseValue s = Some (v, r) \<Longrightarrow> length r < length s)"
  "parseValue_parseElements_parseMembers_dom (Inr (Inl s1)) \<Longrightarrow>
     (\<And>vs r. parseElements s1 = Some (vs, r) \<Longrightarrow> length r < length s1)"
  "parseValue_parseElements_parseMembers_dom (Inr (Inr s2)) \<Longrightarrow>
     (\<And>ms r. parseMembers s2 = Some (ms, r) \<Longrightarrow> length r < length s2)"
proof (induction s and s1 and s2 rule: parseValue_parseElements_parseMembers.pinduct)
  case (1 s)
  have A: "length r < length s"
    if "skipWS s = c # t" "c = 0x5B" "skipWS t = d # t'" "d \<noteq> 0x5D" "parseElements t = Some (vs, r)"
    for c t d t' vs r
    using "1.IH"(1) [OF that] skipWS_Cons [OF that(1)] by simp
  have B: "length r < length s"
    if "skipWS s = c # t" "c \<noteq> 0x5B" "c = 0x7B" "skipWS t = d # t'" "d \<noteq> 0x7D" "parseMembers t = Some (ms, r)"
    for c t d t' ms r
    using "1.IH"(2) [OF that] skipWS_Cons [OF that(1)] by simp
  have C: "length t' < length s" if "skipWS s = c # t" "skipWS t = d # t'" for c t d t'
    using skipWS_Cons [OF that(1)] skipWS_Cons [OF that(2)] by simp
  have D: "length r < length s" if "skipWS s = c # t" "parseChars t = Some (u, r)" for c t u r
    using skipWS_Cons [OF that(1)] parseChars_shorter [OF that(2)] by simp
  have E: "length r < length s" if "skipWS s = c # t" "parseLiteral (c # t) = Some (v, r)" for c t v r
  proof -
    have "length (skipWS s) \<le> length s"
      unfolding skipWS_def by (rule length_dropWhile_le)
    with parseLiteral_shorter [OF that(2)] that(1) show ?thesis by simp
  qed
  from "1.prems" show ?case
    unfolding parseValue.psimps [OF "1.hyps"]
    by (auto split: list.splits if_splits prod.splits intro: A B C D E)
next
  case (2 s)
  have A: "length r < length s"
    if "parseValue s = Some (v, t)" "skipWS t = c # t'" "c = 0x2C" "parseElements t' = Some (vs, r)"
    for v t c t' vs r
    using "2.IH"(2) [OF that(1) refl that(2,3,4)] skipWS_Cons [OF that(2)] "2.IH"(1) [OF that(1)] by simp
  have B: "length t' < length s" if "parseValue s = Some (v, t)" "skipWS t = c # t'" for v t c t'
    using skipWS_Cons [OF that(2)] "2.IH"(1) [OF that(1)] by simp
  from "2.prems" show ?case
    unfolding parseElements.psimps [OF "2.hyps"]
    by (auto simp add: consTo_Some split: option.splits list.splits if_splits prod.splits intro: A B)
next
  case (3 s)
  have P: "length t3 < length s"
    if "skipWS s = q # t" "q = 0x22" "parseChars t = Some (k, t1)" "skipWS t1 = c # t2" "c = 0x3A"
      "parseValue t2 = Some (v, t3)"
    for q t k t1 c t2 v t3
  proof -
    have n: "\<not> q \<noteq> 0x22" "\<not> c \<noteq> 0x3A" using that by simp_all
    from "3.IH"(1) [OF that(1) n(1) that(3) refl that(4) n(2) that(6)]
      skipWS_Cons [OF that(1)] parseChars_shorter [OF that(3)] skipWS_Cons [OF that(4)]
    show ?thesis by simp
  qed
  have A: "length r < length s"
    if "skipWS s = q # t" "q = 0x22" "parseChars t = Some (k, t1)" "skipWS t1 = c # t2" "c = 0x3A"
      "parseValue t2 = Some (v, t3)" "skipWS t3 = d # t4" "d = 0x2C" "parseMembers t4 = Some (ms, r)"
    for q t k t1 c t2 v t3 d t4 ms r
  proof -
    have n: "\<not> q \<noteq> 0x22" "\<not> c \<noteq> 0x3A" using that by simp_all
    from "3.IH"(2) [OF that(1) n(1) that(3) refl that(4) n(2) that(6) refl that(7,8,9)]
      P [OF that(1,2,3,4,5,6)] skipWS_Cons [OF that(7)]
    show ?thesis by simp
  qed
  have B: "length t4 < length s"
    if "skipWS s = q # t" "q = 0x22" "parseChars t = Some (k, t1)" "skipWS t1 = c # t2" "c = 0x3A"
      "parseValue t2 = Some (v, t3)" "skipWS t3 = d # t4"
    for q t k t1 c t2 v t3 d t4
    using P [OF that(1,2,3,4,5,6)] skipWS_Cons [OF that(7)] by simp
  from "3.prems" show ?case
    unfolding parseMembers.psimps [OF "3.hyps"]
    by (auto simp add: consTo_Some split: option.splits list.splits if_splits prod.splits intro: A B)
qed

termination parseValue
proof (relation "measure (\<lambda>x. case x of Inl s \<Rightarrow> 2 * length s
                               | Inr (Inl s) \<Rightarrow> 2 * length s + 1
                               | Inr (Inr s) \<Rightarrow> 2 * length s + 1)", goal_cases)
  case 1
  then show ?case by simp
next
  case (2 s c r d r')
  then show ?case by (auto dest!: skipWS_Cons)
next
  case (3 s c r d r')
  then show ?case by (auto dest!: skipWS_Cons)
next
  case (4 s)
  then show ?case by simp
next
  case (5 s x2 v r c r')
  then show ?case by (auto dest!: skipWS_Cons parse_shorter_dom(1))
next
  case (6 s q r x2 k r1 c r2)
  then show ?case by (auto dest!: skipWS_Cons parseChars_shorter)
next
  case (7 s q r x2 k r1 c r2 x2a v r3 d r4)
  then show ?case by (auto dest!: skipWS_Cons parseChars_shorter parse_shorter_dom(1))
qed


declare parseValue.simps [simp del] parseElements.simps [simp del] parseMembers.simps [simp del]

text \<open>
  \<open>JSON.parse\<close>: one value, and only white space after it. Anything else throws a
  SyntaxError.
\<close>

definition JSON_parse :: "jsstring \<Rightarrow> exn + json" where
  "JSON_parse s =
     (case parseValue s of
        None \<Rightarrow> Inl SyntaxError
      | Some (v, r) \<Rightarrow> if skipWS r = [] then Inr v else Inl SyntaxError)"

section \<open>Reading the notes back\<close>

text \<open>
  \<open>n.key\<close> on a parsed value, for the four keys the program reads: an own property
  of an object (the last one, when a key is repeated), \<open>undefined\<close> otherwise.
\<close>

fun getProp :: "json \<Rightarrow> jsstring \<Rightarrow> json option" where
  "getProp (JObject ms) k = map_of (rev ms) k"
| "getProp v k = None"

text \<open>\<open>a ?? b\<close>: \<open>b\<close> when \<open>a\<close> is \<open>undefined\<close> or \<open>null\<close>.\<close>

definition nullish :: "json option \<Rightarrow> json \<Rightarrow> json" where
  "nullish v d = (case v of None \<Rightarrow> d | Some JNull \<Rightarrow> d | Some x \<Rightarrow> x)"

text \<open>
  \<open>String(v)\<close> on a parsed value. An array is joined with commas, \<open>null\<close> elements
  giving the empty string. An object gives \<open>[object Object]\<close>, unless it has an own
  property \<open>toString\<close>: a parsed value is never callable, and the conversion throws
  a TypeError. The string of a number is left to the parameter \<open>nf\<close>.
\<close>

fun ToString :: "(jsstring \<Rightarrow> jsstring) \<Rightarrow> json \<Rightarrow> exn + jsstring"
  and joinElements :: "(jsstring \<Rightarrow> jsstring) \<Rightarrow> json list \<Rightarrow> exn + jsstring"
where
  "ToString nf JNull = Inr (js ''null'')"
| "ToString nf (JBool b) = Inr (if b then js ''true'' else js ''false'')"
| "ToString nf (JNumber t) = Inr (nf t)"
| "ToString nf (JString s) = Inr s"
| "ToString nf (JArray vs) = joinElements nf vs"
| "ToString nf (JObject ms) =
     (if map_of ms (js ''toString'') \<noteq> None then Inl TypeError
      else Inr (js ''[object Object]''))"
| "joinElements nf [] = Inr []"
| "joinElements nf (v # vs) =
     (case (if v = JNull then Inr [] else ToString nf v) of
        Inl e \<Rightarrow> Inl e
      | Inr s \<Rightarrow>
          if vs = [] then Inr s
          else (case joinElements nf vs of
                  Inl e \<Rightarrow> Inl e
                | Inr t \<Rightarrow> Inr (s @ js '','' @ t)))"

text \<open>
  What the callback of \<open>map\<close> reads from the outside when it runs on the element
  \<open>k\<close> of the filtered array: the clock and the random number of \<open>generateId()\<close>,
  the value of \<open>new Date().toISOString()\<close>, and the printing of numbers.
\<close>

record loadEnv =
  dateNowAt :: "nat \<Rightarrow> nat"
  random16At :: "nat \<Rightarrow> jsstring"
  isoAt :: "nat \<Rightarrow> jsstring"
  numberToString :: "jsstring \<Rightarrow> jsstring"

text \<open>\<open>n && typeof n === "object"\<close>: objects and arrays, not \<open>null\<close>.\<close>

definition isObject :: "json \<Rightarrow> bool" where
  "isObject n = (case n of JObject ms \<Rightarrow> True | JArray vs \<Rightarrow> True | _ \<Rightarrow> False)"

definition coerceNote :: "loadEnv \<Rightarrow> nat \<Rightarrow> json \<Rightarrow> exn + Note" where
  "coerceNote env k n =
     (case ToString (numberToString env)
             (nullish (getProp n (js ''id''))
                (JString (generateId (dateNowAt env k) (random16At env k)))) of
        Inl e \<Rightarrow> Inl e
      | Inr i \<Rightarrow>
     (case ToString (numberToString env) (nullish (getProp n (js ''title'')) (JString [])) of
        Inl e \<Rightarrow> Inl e
      | Inr t \<Rightarrow>
     (case ToString (numberToString env) (nullish (getProp n (js ''body'')) (JString [])) of
        Inl e \<Rightarrow> Inl e
      | Inr b \<Rightarrow>
          Inr \<lparr>id_n = i, title_n = t, body_n = b,
               updatedAt = (case getProp n (js ''updatedAt'') of
                              Some (JString u) \<Rightarrow> u
                            | _ \<Rightarrow> isoAt env k)\<rparr>)))"

fun mapNotes :: "loadEnv \<Rightarrow> nat \<Rightarrow> json list \<Rightarrow> exn + Note list" where
  "mapNotes env k [] = Inr []"
| "mapNotes env k (n # ns) =
     (case coerceNote env k n of
        Inl e \<Rightarrow> Inl e
      | Inr x \<Rightarrow>
          (case mapNotes env (Suc k) ns of
             Inl e \<Rightarrow> Inl e
           | Inr xs \<Rightarrow> Inr (x # xs)))"

text \<open>\<open>loadNotesFromStorage\<close>: every exception ends in the \<open>catch\<close> block, which returns \<open>[]\<close>.\<close>

definition loadNotesFromStorage :: "loadEnv \<Rightarrow> storage \<Rightarrow> Note list" where
  "loadNotesFromStorage env s =
     (case getItem s of
        Inl e \<Rightarrow> []
      | Inr None \<Rightarrow> []
      | Inr (Some raw) \<Rightarrow>
          if raw = [] then []
          else
            (case JSON_parse raw of
               Inl e \<Rightarrow> []
             | Inr (JArray parsed) \<Rightarrow>
                 (case mapNotes env 0 (filter isObject parsed) of
                    Inl e \<Rightarrow> []
                  | Inr ns \<Rightarrow> ns)
             | Inr v \<Rightarrow> []))"

section \<open>The component state and its handlers\<close>

text \<open>
  The state of \<open>App\<close>: the five \<open>useState\<close> cells, the storage, the identity of the
  array held in \<open>notes\<close> (arrays are numbered in the order of their creation) and the
  number of note objects created so far.
\<close>

record app =
  notes_st :: "Note obj list"
  notesRef :: nat
  search :: jsstring
  editingId :: "jsstring option"
  title :: jsstring
  body :: jsstring
  storage :: storage
  heap :: nat

definition editingNote :: "app \<Rightarrow> Note obj option" where
  "editingNote st =
     (case editingId st of
        None \<Rightarrow> None
      | Some e \<Rightarrow> find (\<lambda>n. id_n (snd n) = e) (notes_st st))"


text \<open>
  The handlers give the state after their batched \<open>set...\<close> calls. Every updater
  passed to \<open>setNotes\<close> builds a new array.
\<close>

definition startNew :: "app \<Rightarrow> app" where
  "startNew st = st\<lparr>editingId := Some NEW, title := [], body := []\<rparr>"

definition startEdit :: "jsstring \<Rightarrow> app \<Rightarrow> app" where
  "startEdit i st = st\<lparr>editingId := Some i\<rparr>"

definition cancelEdit :: "app \<Rightarrow> app" where
  "cancelEdit st = st\<lparr>editingId := None, title := [], body := []\<rparr>"

definition deleteNote :: "jsstring \<Rightarrow> app \<Rightarrow> app" where
  "deleteNote i st =
     (let st1 = st\<lparr>notes_st := filter (\<lambda>n. id_n (snd n) \<noteq> i) (notes_st st),
                    notesRef := Suc (notesRef st)\<rparr>
      in if editingId st = Some i then cancelEdit st1 else st1)"

text \<open>
  The \<open>prev.map(...)\<close> of \<open>saveCurrent\<close>: every note with the edited id is replaced
  by a new object (numbered from \<open>r\<close>), the others are kept as they are.
\<close>

fun mapEdited ::
  "nat \<Rightarrow> jsstring \<Rightarrow> jsstring \<Rightarrow> jsstring \<Rightarrow> jsstring \<Rightarrow> Note obj list \<Rightarrow> Note obj list"
where
  "mapEdited r e t b now [] = []"
| "mapEdited r e t b now (n # ns) =
     (if id_n (snd n) = e
      then (r, (snd n)\<lparr>title_n := t, body_n := b, updatedAt := now\<rparr>) # mapEdited (Suc r) e t b now ns
      else n # mapEdited r e t b now ns)"

text \<open>\<open>a || b\<close> on strings: the empty string is falsy.\<close>

definition orElse :: "jsstring \<Rightarrow> jsstring \<Rightarrow> jsstring" where
  "orElse a b = (if a = [] then b else a)"

text \<open>
  \<open>saveCurrent\<close>: \<open>now\<close> is the value of \<open>new Date().toISOString()\<close>, \<open>dateNow\<close> and
  \<open>random16\<close> are what \<open>generateId\<close> reads when it is called.
\<close>

definition saveCurrent :: "jsstring \<Rightarrow> nat \<Rightarrow> jsstring \<Rightarrow> app \<Rightarrow> app" where
  "saveCurrent now dateNow random16 st =
     (let trimmedTitle = trim (title st); trimmedBody = trim (body st) in
      if trimmedTitle = [] \<and> trimmedBody = [] then st
      else if editingId st = Some NEW then
        (let newNote = \<lparr>id_n = generateId dateNow random16,
                        title_n = orElse trimmedTitle Untitled,
                        body_n = trimmedBody,
                        updatedAt = now\<rparr>
         in st\<lparr>notes_st := (heap st, newNote) # notes_st st,
                notesRef := Suc (notesRef st),
                heap := Suc (heap st),
                editingId := None, title := [], body := []\<rparr>)
      else
        (case editingId st of
           None \<Rightarrow> st
         | Some e \<Rightarrow>
             if e = [] then st
             else st\<lparr>notes_st := mapEdited (heap st) e (orElse trimmedTitle Untitled) trimmedBody now (notes_st st),
                    notesRef := Suc (notesRef st),
                    heap := heap st + length (filter (\<lambda>n. id_n (snd n) = e) (notes_st st)),
                    editingId := None, title := [], body := []\<rparr>))"

text \<open>
  After a handler the component renders again and the effects whose dependency
  changed run, in the order of their declaration: the save effect (dependency
  \<open>notes\<close>) and the editor sync effect (dependency \<open>editingNote\<close>). The \<open>setTitle\<close>
  and \<open>setBody\<close> of the sync effect change no dependency, so no effect runs after
  them. \<open>prev\<close> is the state of the render before the handler.
\<close>

definition saveEffect :: "app \<Rightarrow> app \<Rightarrow> app" where
  "saveEffect prev next =
     (if notesRef next \<noteq> notesRef prev
      then next\<lparr>storage := saveNotesToStorage (map snd (notes_st next)) (storage next)\<rparr>
      else next)"

definition runEffects :: "app \<Rightarrow> app \<Rightarrow> app" where
  "runEffects prev next =
     (let s1 = saveEffect prev next
      in if map_option fst (editingNote next) \<noteq> map_option fst (editingNote prev)
         then (case editingNote next of
                 None \<Rightarrow> s1
               | Some n \<Rightarrow> s1\<lparr>title := title_n (snd n), body := body_n (snd n)\<rparr>)
         else s1)"

datatype event =
    StartNew
  | StartEdit jsstring
  | CancelEdit
  | DeleteNote jsstring
  | SaveCurrent jsstring nat jsstring
  | SetTitle jsstring
  | SetBody jsstring
  | SetSearch jsstring

fun handler :: "event \<Rightarrow> app \<Rightarrow> app" where
  "handler StartNew st = startNew st"
| "handler (StartEdit i) st = startEdit i st"
| "handler CancelEdit st = cancelEdit st"
| "handler (DeleteNote i) st = deleteNote i st"
| "handler (SaveCurrent now dateNow random16) st = saveCurrent now dateNow random16 st"
| "handler (SetTitle v) st = st\<lparr>title := v\<rparr>"
| "handler (SetBody v) st = st\<lparr>body := v\<rparr>"
| "handler (SetSearch v) st = st\<lparr>search := v\<rparr>"

definition dispatch :: "event \<Rightarrow> app \<Rightarrow> app" where
  "dispatch ev st = runEffects st (handler ev st)"

text \<open>The collection as \<open>list()\<close> shows it: the fields of the notes, in order.\<close>

definition list_notes :: "app \<Rightarrow> Note list" where
  "list_notes st = map snd (notes_st st)"

definition ids :: "app \<Rightarrow> jsstring set" where
  "ids st = set (map (\<lambda>n. id_n (snd n)) (notes_st st))"

text \<open>
  The first render: the state is initialised from the storage, and both effects run;
  the save effect writes the loaded notes back, the sync effect finds no note.
\<close>

definition mount :: "loadEnv \<Rightarrow> storage \<Rightarrow> app" where
  "mount env s =
     (let ns = loadNotesFromStorage env s in
      \<lparr>notes_st = enumerate 0 ns, notesRef = 0, search = [], editingId = None,
       title = [], body = [], storage = saveNotesToStorage ns s, heap = length ns\<rparr>)"

section \<open>Sequences of events\<close>

text \<open>Any sequence of events, whatever the page offers.\<close>

fun run :: "event list \<Rightarrow> app \<Rightarrow> app" where
  "run [] st = st"
| "run (ev # evs) st = run evs (dispatch ev st)"

text \<open>The event is a save whose call of \<open>generateId\<close> would return \<open>i\<close>.\<close>

fun generates :: "jsstring \<Rightarrow> event \<Rightarrow> bool" where
  "generates i (SaveCurrent now dateNow rnd) = (generateId dateNow rnd = i)"
| "generates i ev = False"

section \<open>Reading a decimal numeral\<close>

text \<open>
  The number that a string of decimal digits denotes, used to tell the ids of
  \<open>generateId\<close> apart.
\<close>

definition digitValue :: "16 word \<Rightarrow> nat" where
  "digitValue c = unat (c - 0x30)"

definition decimalValue :: "jsstring \<Rightarrow> nat" where
  "decimalValue s = foldl (\<lambda>a c. 10 * a + digitValue c) 0 s"

section \<open>The search filter as the specification words it\<close>




text \<open>
  The value that \<open>JSON.parse\<close> returns for the text of a note: an object with the
  four properties in the order in which \<open>JSON.stringify\<close> writes them.
\<close>

definition noteJSON :: "Note \<Rightarrow> json" where
  "noteJSON n =
     JObject [(js ''id'', JString (id_n n)), (js ''title'', JString (title_n n)),
              (js ''body'', JString (body_n n)), (js ''updatedAt'', JString (updatedAt n))]"

section \<open>States used as concrete inputs\<close>

definition env0 :: loadEnv where
  "env0 = \<lparr>dateNowAt = (\<lambda>k. 17 + k), random16At = (\<lambda>k. js ''0.8f''),
            isoAt = (\<lambda>k. js ''t9''), numberToString = (\<lambda>t. t)\<rparr>"

definition store0 :: storage where
  "store0 = \<lparr>item = None, quota = 1000, accessible = True\<rparr>"

definition note_a :: Note where
  "note_a = \<lparr>id_n = js ''a'', title_n = js ''T'', body_n = js ''B'', updatedAt = js ''t0''\<rparr>"

definition note_NEW :: Note where
  "note_NEW = \<lparr>id_n = NEW, title_n = js ''x'', body_n = [], updatedAt = js ''t0''\<rparr>"

text \<open>The note \<open>a\<close> is being edited, the drafts are its title and body.\<close>

definition editingA :: app where
  "editingA =
     \<lparr>notes_st = [(0, note_a)], notesRef = 0, search = [], editingId = Some (js ''a''),
      title = js ''T'', body = js ''B'', storage = store0, heap = 1\<rparr>"

text \<open>A new note is being composed while a stored note has the id \<open>NEW\<close>.\<close>

definition creatingNEW :: app where
  "creatingNEW =
     \<lparr>notes_st = [(0, note_NEW)], notesRef = 0, search = [], editingId = Some NEW,
      title = js ''draft'', body = [], storage = store0, heap = 1\<rparr>"

text \<open>A new note is being composed, the drafts are blank.\<close>

definition blankDraft :: app where
  "blankDraft =
     \<lparr>notes_st = [], notesRef = 0, search = [], editingId = Some NEW,
      title = js ''  '', body = [],
      storage = store0, heap = 0\<rparr>"

text \<open>The editor is open on the empty id, which no note has.\<close>

definition editingMissingEmpty :: app where
  "editingMissingEmpty =
     \<lparr>notes_st = [], notesRef = 0, search = [], editingId = Some [],
      title = js ''T'', body = js ''B'', storage = store0, heap = 0\<rparr>"

text \<open>A new note is being composed in an empty collection, the drafts are not blank.\<close>

definition creatingDraft :: app where
  "creatingDraft =
     \<lparr>notes_st = [], notesRef = 0, search = [], editingId = Some NEW,
      title = js ''T'', body = js ''B'', storage = store0, heap = 0\<rparr>"

text \<open>The editor is open on the id \<open>gone\<close>, which no note has.\<close>

definition editingMissing :: app where
  "editingMissing =
     \<lparr>notes_st = [(0, note_a)], notesRef = 0, search = [], editingId = Some (js ''gone''),
      title = js ''T'', body = js ''B'', storage = store0, heap = 1\<rparr>"

definition note_blank :: Note where
  "note_blank = \<lparr>id_n = js ''a'', title_n = [], body_n = [], updatedAt = js ''t0''\<rparr>"

text \<open>The blank note \<open>a\<close> is being edited, the drafts are its (empty) title and body.\<close>

definition editingBlank :: app where
  "editingBlank =
     \<lparr>notes_st = [(0, note_blank)], notesRef = 0, search = [], editingId = Some (js ''a''),
      title = [], body = [], storage = store0, heap = 1\<rparr>"

definition note_noid :: Note where
  "note_noid = \<lparr>id_n = [], title_n = js ''T'', body_n = js ''B'', updatedAt = js ''t0''\<rparr>"

text \<open>A note whose id is the empty string is being edited, the drafts are its title and body.\<close>

definition editingNoId :: app where
  "editingNoId =
     \<lparr>notes_st = [(0, note_noid)], notesRef = 0, search = [], editingId = Some [],
      title = js ''T'', body = js ''B'', storage = store0, heap = 1\<rparr>"

text \<open>The editor was opened on a stored note whose id is \<open>NEW\<close>, the drafts are its title and body.\<close>

definition editingNEW :: app where
  "editingNEW =
     \<lparr>notes_st = [(0, note_NEW)], notesRef = 0, search = [], editingId = Some NEW,
      title = js ''x'', body = [], storage = store0, heap = 1\<rparr>"

definition note_b :: Note where
  "note_b = \<lparr>id_n = js ''b'', title_n = js ''x'', body_n = js ''cat'', updatedAt = js ''t0''\<rparr>"


text \<open>
  A new note is being composed while the collection holds a note whose id is the
  one \<open>generateId\<close> returns at the clock reading \<open>1768364340000\<close> with the random
  digits \<open>8f3a\<close>.
\<close>

definition note_dup :: Note where
  "note_dup = \<lparr>id_n = js ''1768364340000_8f3a'', title_n = js ''x'', body_n = [], updatedAt = js ''t0''\<rparr>"

definition creatingDup :: app where
  "creatingDup =
     \<lparr>notes_st = [(0, note_dup)], notesRef = 0, search = [], editingId = Some NEW,
      title = js ''draft'', body = [], storage = store0, heap = 1\<rparr>"

text \<open>A storage that has no room left: every write fails.\<close>

definition fullStore :: storage where
  "fullStore = \<lparr>item = None, quota = 0, accessible = True\<rparr>"

text \<open>A storage with just the room that the key and the text of two notes take.\<close>

definition roomyStore :: storage where
  "roomyStore =
     \<lparr>item = None, quota = length STORAGE_KEY + length (JSON_stringify [note_a, note_b]),
      accessible = True\<rparr>"

text \<open>
  A storage whose item was not written by this page: an array with one object that
  has an id and neither a title nor a body. The note that \<open>loadNotesFromStorage\<close>
  makes of it has the empty title and the empty body.
\<close>

definition note_loaded :: Note where
  "note_loaded = \<lparr>id_n = js ''a'', title_n = [], body_n = [], updatedAt = js ''t9''\<rparr>"

definition blobStore :: storage where
  \<open>blobStore =
     \<lparr>item = Some (js ''[{"id":"a"}]''),
      quota = length STORAGE_KEY + length (JSON_stringify [note_loaded]),
      accessible = True\<rparr>\<close>

text \<open>The note that a save makes of the draft of \<open>creatingNEW\<close>.\<close>

definition note_draft :: Note where
  "note_draft = \<lparr>id_n = js ''17_8f'', title_n = js ''draft'', body_n = [], updatedAt = js ''t1''\<rparr>"

section \<open>Properties of the handlers\<close>

lemma editingNote_None [simp]: "editingId st = None \<Longrightarrow> editingNote st = None"
  by (simp add: editingNote_def)

lemma runEffects_same: "runEffects st st = st"
  by (simp add: runEffects_def saveEffect_def)

lemma runEffects_no_note:
  "editingNote next = None \<Longrightarrow> runEffects prev next = saveEffect prev next"
  by (simp add: runEffects_def Let_def)

lemma runEffects_same_note:
  "editingNote next = editingNote prev \<Longrightarrow> runEffects prev next = saveEffect prev next"
  by (simp add: runEffects_def Let_def)

lemma find_absent:
  "i \<notin> set (map (\<lambda>n. id_n (snd n)) ns) \<Longrightarrow> find (\<lambda>n. id_n (snd n) = i) ns = None"
  by (induction ns) auto

lemma find_filter_other:
  "e \<noteq> x \<Longrightarrow>
   find (\<lambda>n. id_n (snd n) = e) (filter (\<lambda>n. id_n (snd n) \<noteq> x) ns) =
   find (\<lambda>n. id_n (snd n) = e) ns"
  by (induction ns) auto

lemma mapEdited_absent:
  "e \<notin> set (map (\<lambda>n. id_n (snd n)) ns) \<Longrightarrow> mapEdited r e t b now ns = ns"
  by (induction ns) auto

lemma filter_absent:
  "e \<notin> set (map (\<lambda>n. id_n (snd n)) ns) \<Longrightarrow> filter (\<lambda>n. id_n (snd n) = e) ns = []"
  by (induction ns) auto

lemma mapEdited_fields:
  "map snd (mapEdited r e t b now ns) =
     map (\<lambda>m. if id_n m = e then m\<lparr>title_n := t, body_n := b, updatedAt := now\<rparr> else m) (map snd ns)"
  by (induction ns arbitrary: r) auto

lemma saveCurrent_edit:
  assumes "editingId st = Some i" and "i \<noteq> []" and "i \<noteq> NEW"
    and "trim (title st) \<noteq> [] \<or> trim (body st) \<noteq> []"
  shows "saveCurrent now dateNow rnd st =
           st\<lparr>notes_st := mapEdited (heap st) i (orElse (trim (title st)) Untitled) (trim (body st)) now (notes_st st),
              notesRef := Suc (notesRef st),
              heap := heap st + length (filter (\<lambda>n. id_n (snd n) = i) (notes_st st)),
              editingId := None, title := [], body := []\<rparr>"
  using assms by (auto simp add: saveCurrent_def Let_def)

lemma dispatch_save_edit:
  assumes "editingId st = Some i" and "i \<noteq> []" and "i \<noteq> NEW"
    and "trim (title st) \<noteq> [] \<or> trim (body st) \<noteq> []"
  shows "dispatch (SaveCurrent now dateNow rnd) st =
           st\<lparr>notes_st := mapEdited (heap st) i (orElse (trim (title st)) Untitled) (trim (body st)) now (notes_st st),
              notesRef := Suc (notesRef st),
              heap := heap st + length (filter (\<lambda>n. id_n (snd n) = i) (notes_st st)),
              editingId := None, title := [], body := [],
              storage := saveNotesToStorage
                 (map snd (mapEdited (heap st) i (orElse (trim (title st)) Untitled) (trim (body st)) now (notes_st st)))
                 (storage st)\<rparr>"
proof -
  note sc = saveCurrent_edit [OF assms, of now dateNow rnd]
  have "editingNote (saveCurrent now dateNow rnd st) = None"
    by (simp add: sc)
  then show ?thesis
    by (simp add: dispatch_def runEffects_no_note saveEffect_def) (simp add: sc)
qed

text \<open>
  Claim C3. In every state (whatever the collection and the editor mode), a save
  whose title and body are both empty after trimming changes nothing: the state
  after the event is the state before it, so the collection is the same, the
  dependency of the save effect has not changed and the storage is not written,
  and the editor keeps its mode and its drafts.
\<close>

theorem C3_blank_save_noop:
  assumes "trim (title st) = []" and "trim (body st) = []"
  shows "dispatch (SaveCurrent now dateNow rnd) st = st"
  using assms by (simp add: dispatch_def saveCurrent_def runEffects_same)

theorem C3_blank_save_noop_witness:
  "trim (title blankDraft) = [] \<and> trim (body blankDraft) = [] \<and>
   dispatch (SaveCurrent (js ''t'') 1 (js ''0.a'')) blankDraft = blankDraft"
proof -
  have a: "trim (title blankDraft) = []"
    by (simp add: blankDraft_def trim_def js_def isWhiteSpace_def)
  have b: "trim (body blankDraft) = []"
    by (simp add: blankDraft_def trim_def)
  show ?thesis using a b C3_blank_save_noop [OF a b] by simp
qed

text \<open>
  Claim C5, as the code has it. \<open>startEdit\<close> sets \<open>editingId\<close> whatever the id: for
  an id that no note of the collection has, the editor is open on that id, and the
  sync effect returns at once, so the drafts keep the values they had.
\<close>

theorem C5_startEdit_missing:
  assumes "i \<notin> ids st"
  shows "dispatch (StartEdit i) st = st\<lparr>editingId := Some i\<rparr>"
proof -
  have "editingNote (startEdit i st) = None"
    using assms by (simp add: startEdit_def editingNote_def ids_def find_absent)
  then show ?thesis
    by (simp add: dispatch_def runEffects_no_note saveEffect_def) (simp add: startEdit_def)
qed

theorem C5_startEdit_missing_witness:
  "js ''zzz'' \<notin> ids editingA \<and>
   editingId (dispatch (StartEdit (js ''zzz'')) editingA) = Some (js ''zzz'')"
proof -
  have a: "js ''zzz'' \<notin> ids editingA"
    by (simp add: ids_def editingA_def note_a_def js_def)
  show ?thesis using a C5_startEdit_missing [OF a] by simp
qed

text \<open>
  The claim C5 as stated fails: while the note \<open>a\<close> is edited, \<open>startEdit\<close> on the
  absent id \<open>zzz\<close> leaves the editor open (not idle), with the title and the body of
  \<open>a\<close> still in the drafts.
\<close>

theorem C5_counterexample:
  "js ''zzz'' \<notin> ids editingA \<and>
   editingId (dispatch (StartEdit (js ''zzz'')) editingA) \<noteq> None \<and>
   title (dispatch (StartEdit (js ''zzz'')) editingA) = title_n note_a \<and>
   body (dispatch (StartEdit (js ''zzz'')) editingA) = body_n note_a"
  by (simp add: dispatch_def startEdit_def runEffects_def saveEffect_def editingNote_def ids_def
      editingA_def note_a_def js_def)

text \<open>
  Claim C10, as the code has it. Deleting the id \<open>x\<close> when \<open>editingId\<close> is not \<open>x\<close>
  changes the collection (the notes with id \<open>x\<close> are removed), the identity of the
  array and the storage, and nothing else: \<open>editingId\<close> and both drafts are kept.
\<close>

theorem C10_delete_other:
  assumes "editingId st \<noteq> Some x"
  shows "dispatch (DeleteNote x) st =
           st\<lparr>notes_st := filter (\<lambda>n. id_n (snd n) \<noteq> x) (notes_st st),
              notesRef := Suc (notesRef st),
              storage := saveNotesToStorage
                 (map snd (filter (\<lambda>n. id_n (snd n) \<noteq> x) (notes_st st))) (storage st)\<rparr>"
proof -
  have "editingNote (deleteNote x st) = editingNote st"
    using assms
    by (cases "editingId st")
       (simp_all add: deleteNote_def editingNote_def find_filter_other Let_def)
  then show ?thesis
    using assms
    by (simp add: dispatch_def runEffects_same_note saveEffect_def) (simp add: deleteNote_def Let_def)
qed

theorem C10_delete_other_witness:
  "editingId editingA \<noteq> Some (js ''b'') \<and>
   editingId (dispatch (DeleteNote (js ''b'')) editingA) = Some (js ''a'') \<and>
   title (dispatch (DeleteNote (js ''b'')) editingA) = js ''T'' \<and>
   body (dispatch (DeleteNote (js ''b'')) editingA) = js ''B''"
proof -
  have a: "editingId editingA \<noteq> Some (js ''b'')"
    by (simp add: editingA_def js_def)
  show ?thesis
    using a C10_delete_other [OF a] by (simp add: editingA_def)
qed

text \<open>
  The claim C10 as stated fails in the mode Creating, which the code writes as
  \<open>editingId = NEW\<close>: deleting a note whose id is \<open>NEW\<close> then takes the branch
  \<open>editingId === id\<close>, closes the editor and clears the draft.
\<close>

theorem C10_counterexample:
  "editingId creatingNEW = Some NEW \<and>
   editingId (dispatch (DeleteNote NEW) creatingNEW) = None \<and>
   title creatingNEW = js ''draft'' \<and>
   title (dispatch (DeleteNote NEW) creatingNEW) = []"
  by (simp add: dispatch_def deleteNote_def cancelEdit_def runEffects_def saveEffect_def
      editingNote_def creatingNEW_def note_NEW_def Let_def)

lemma dispatch_save_new:
  assumes "editingId st = Some NEW"
    and "trim (title st) \<noteq> [] \<or> trim (body st) \<noteq> []"
  shows "dispatch (SaveCurrent now dateNow rnd) st =
           st\<lparr>notes_st := (heap st, \<lparr>id_n = generateId dateNow rnd,
                                      title_n = orElse (trim (title st)) Untitled,
                                      body_n = trim (body st),
                                      updatedAt = now\<rparr>) # notes_st st,
              notesRef := Suc (notesRef st),
              heap := Suc (heap st),
              editingId := None, title := [], body := [],
              storage := saveNotesToStorage
                 (\<lparr>id_n = generateId dateNow rnd,
                   title_n = orElse (trim (title st)) Untitled,
                   body_n = trim (body st),
                   updatedAt = now\<rparr> # list_notes st)
                 (storage st)\<rparr>"
proof -
  have sc: "saveCurrent now dateNow rnd st =
           st\<lparr>notes_st := (heap st, \<lparr>id_n = generateId dateNow rnd,
                                      title_n = orElse (trim (title st)) Untitled,
                                      body_n = trim (body st),
                                      updatedAt = now\<rparr>) # notes_st st,
              notesRef := Suc (notesRef st),
              heap := Suc (heap st),
              editingId := None, title := [], body := []\<rparr>"
    using assms by (auto simp add: saveCurrent_def Let_def)
  have "editingNote (saveCurrent now dateNow rnd st) = None"
    by (simp add: sc)
  then show ?thesis
    by (simp add: dispatch_def runEffects_no_note saveEffect_def) (simp add: sc list_notes_def)
qed

text \<open>
  Claim C2, as the code has it. The editor is open on an id that no note has, the id
  is neither empty nor \<open>NEW\<close>, and the drafts are not both blank. The save maps
  over the collection without a match: the notes are unchanged, the editor goes
  back to idle and the drafts are cleared, as after a save that found its note;
  the new array is written to the storage.
\<close>

theorem C2_update_missing:
  assumes "editingId st = Some i" and "i \<noteq> []" and "i \<noteq> NEW" and "i \<notin> ids st"
    and "trim (title st) \<noteq> [] \<or> trim (body st) \<noteq> []"
  shows "dispatch (SaveCurrent now dateNow rnd) st =
           st\<lparr>notesRef := Suc (notesRef st), editingId := None, title := [], body := [],
              storage := saveNotesToStorage (list_notes st) (storage st)\<rparr>"
  using assms(4)
  by (simp add: dispatch_save_edit [OF assms(1,2,3,5)] ids_def mapEdited_absent filter_absent list_notes_def)

lemma trim_T: "trim (js ''T'') = js ''T''"
  by (simp add: trim_def js_def isWhiteSpace_def)

lemma trim_B: "trim (js ''B'') = js ''B''"
  by (simp add: trim_def js_def isWhiteSpace_def)

theorem C2_update_missing_witness:
  "editingId editingMissing = Some (js ''gone'') \<and> js ''gone'' \<notin> ids editingMissing \<and>
   trim (title editingMissing) = js ''T'' \<and>
   editingId (dispatch (SaveCurrent (js ''t1'') 17 (js ''0.8f'')) editingMissing) = None \<and>
   title (dispatch (SaveCurrent (js ''t1'') 17 (js ''0.8f'')) editingMissing) = [] \<and>
   body (dispatch (SaveCurrent (js ''t1'') 17 (js ''0.8f'')) editingMissing) = [] \<and>
   notes_st (dispatch (SaveCurrent (js ''t1'') 17 (js ''0.8f'')) editingMissing) = notes_st editingMissing"
proof -
  have a: "editingId editingMissing = Some (js ''gone'')"
    by (simp add: editingMissing_def)
  have b: "js ''gone'' \<noteq> []" "js ''gone'' \<noteq> NEW"
    by (simp_all add: js_def NEW_def)
  have c: "js ''gone'' \<notin> ids editingMissing"
    by (simp add: ids_def editingMissing_def note_a_def js_def)
  have d: "trim (title editingMissing) = js ''T''"
    by (simp add: editingMissing_def trim_T)
  have e: "trim (title editingMissing) \<noteq> [] \<or> trim (body editingMissing) \<noteq> []"
    by (simp add: d) (simp add: js_def)
  show ?thesis
    using a c d C2_update_missing [OF a b c e, of "js ''t1''" 17 "js ''0.8f''"] by simp
qed

text \<open>
  The claim C2 as stated fails for two ids that no note has. With the empty id the
  test \<open>if (editingId)\<close> is false: nothing happens, the editor stays open with its
  drafts. With the id \<open>NEW\<close> the save takes the branch of a new note and the
  collection grows.
\<close>

theorem C2_counterexample:
  "[] \<notin> ids editingMissingEmpty \<and> trim (title editingMissingEmpty) = js ''T'' \<and>
   editingId editingMissingEmpty = Some [] \<and>
   editingId (dispatch (SaveCurrent (js ''t1'') 17 (js ''0.8f'')) editingMissingEmpty) = Some [] \<and>
   title (dispatch (SaveCurrent (js ''t1'') 17 (js ''0.8f'')) editingMissingEmpty) = js ''T'' \<and>
   NEW \<notin> ids creatingDraft \<and> trim (title creatingDraft) = js ''T'' \<and>
   editingId creatingDraft = Some NEW \<and> list_notes creatingDraft = [] \<and>
   list_notes (dispatch (SaveCurrent (js ''t1'') 17 (js ''0.8f'')) creatingDraft) =
     [\<lparr>id_n = js ''17_8f'', title_n = js ''T'', body_n = js ''B'', updatedAt = js ''t1''\<rparr>]"
proof -
  have d: "generateId 17 (js ''0.8f'') = js ''17_8f''"
    by (simp add: generateId_def digits.simps js_def)
  have f: "js ''T'' \<noteq> []"
    by (simp add: js_def)
  have g: "Some [] \<noteq> Some NEW"
    by (simp add: NEW_def js_def)
  have 1: "dispatch (SaveCurrent (js ''t1'') 17 (js ''0.8f'')) editingMissingEmpty = editingMissingEmpty"
    using g by (simp add: dispatch_def saveCurrent_def editingMissingEmpty_def trim_T trim_B f runEffects_same)
  have 2: "list_notes (dispatch (SaveCurrent (js ''t1'') 17 (js ''0.8f'')) creatingDraft) =
     [\<lparr>id_n = js ''17_8f'', title_n = js ''T'', body_n = js ''B'', updatedAt = js ''t1''\<rparr>]"
  proof -
    have a: "editingId creatingDraft = Some NEW"
      by (simp add: creatingDraft_def)
    have b: "trim (title creatingDraft) \<noteq> [] \<or> trim (body creatingDraft) \<noteq> []"
      by (simp add: creatingDraft_def trim_T f)
    show ?thesis
      by (simp add: dispatch_save_new [OF a b] list_notes_def d)
         (simp add: creatingDraft_def trim_T trim_B orElse_def f)
  qed
  show ?thesis
    unfolding 1 2
    by (simp add: editingMissingEmpty_def creatingDraft_def ids_def trim_T list_notes_def)
qed


lemma editingNote_Some:
  "editingNote st = Some (r, n) \<Longrightarrow> editingId st = Some (id_n n) \<and> (r, n) \<in> set (notes_st st)"
proof -
  assume a: "editingNote st = Some (r, n)"
  then obtain e where e: "editingId st = Some e"
    by (cases "editingId st") (simp_all add: editingNote_def)
  with a have f: "find (\<lambda>n. id_n (snd n) = e) (notes_st st) = Some (r, n)"
    by (simp add: editingNote_def)
  then obtain k where "k < length (notes_st st)" and "id_n (snd (notes_st st ! k)) = e"
      and "(r, n) = notes_st st ! k"
    unfolding find_Some_iff by blast
  then have "id_n n = e" and "(r, n) \<in> set (notes_st st)"
    by (metis snd_conv, metis nth_mem)
  with e show ?thesis by simp
qed

text \<open>
  Claim C9, as the code has it. The note that is edited has an id that is neither
  empty nor \<open>NEW\<close>, the trimmed drafts are its title and body, and they are not
  both empty. The save still rewrites every note with that id: the title (or
  \<open>Untitled\<close> when it is empty) and the body as they were, \<open>updatedAt\<close> the current
  time. The array is a new one, so the save effect runs and writes the storage.
\<close>

theorem C9_no_change_detection:
  assumes "editingNote st = Some (r, n)" and "id_n n \<noteq> []" and "id_n n \<noteq> NEW"
    and "trim (title st) = title_n n" and "trim (body st) = body_n n"
    and "title_n n \<noteq> [] \<or> body_n n \<noteq> []"
  shows "list_notes (dispatch (SaveCurrent now dateNow rnd) st) =
           map (\<lambda>m. if id_n m = id_n n
                    then m\<lparr>title_n := orElse (title_n n) Untitled, body_n := body_n n, updatedAt := now\<rparr>
                    else m) (list_notes st) \<and>
         n\<lparr>title_n := orElse (title_n n) Untitled, updatedAt := now\<rparr>
           \<in> set (list_notes (dispatch (SaveCurrent now dateNow rnd) st)) \<and>
         notesRef (dispatch (SaveCurrent now dateNow rnd) st) \<noteq> notesRef st \<and>
         storage (dispatch (SaveCurrent now dateNow rnd) st) =
           saveNotesToStorage (list_notes (dispatch (SaveCurrent now dateNow rnd) st)) (storage st)"
proof -
  from assms(1) have e: "editingId st = Some (id_n n)" and m: "(r, n) \<in> set (notes_st st)"
    by (simp_all add: editingNote_Some)
  have nb: "trim (title st) \<noteq> [] \<or> trim (body st) \<noteq> []"
    using assms(4,5,6) by simp
  note d = dispatch_save_edit [OF e assms(2,3) nb, of now dateNow rnd]
  have l: "list_notes (dispatch (SaveCurrent now dateNow rnd) st) =
           map (\<lambda>m. if id_n m = id_n n
                    then m\<lparr>title_n := orElse (title_n n) Untitled, body_n := body_n n, updatedAt := now\<rparr>
                    else m) (list_notes st)"
    by (simp add: d list_notes_def mapEdited_fields assms(4,5))
  have "n \<in> set (list_notes st)"
    using m by (force simp add: list_notes_def)
  then have i: "n\<lparr>title_n := orElse (title_n n) Untitled, updatedAt := now\<rparr>
           \<in> set (list_notes (dispatch (SaveCurrent now dateNow rnd) st))"
    unfolding l by (force simp add: image_iff)
  have s: "storage (dispatch (SaveCurrent now dateNow rnd) st) =
           saveNotesToStorage (list_notes (dispatch (SaveCurrent now dateNow rnd) st)) (storage st)"
    by (simp add: d list_notes_def)
  have "notesRef (dispatch (SaveCurrent now dateNow rnd) st) \<noteq> notesRef st"
    by (simp add: d)
  with l i s show ?thesis by simp
qed

theorem C9_no_change_detection_witness:
  "editingNote editingA = Some (0, note_a) \<and>
   trim (title editingA) = title_n note_a \<and> trim (body editingA) = body_n note_a \<and>
   list_notes (dispatch (SaveCurrent (js ''t1'') 17 (js ''0.8f'')) editingA) =
     [\<lparr>id_n = js ''a'', title_n = js ''T'', body_n = js ''B'', updatedAt = js ''t1''\<rparr>] \<and>
   notesRef (dispatch (SaveCurrent (js ''t1'') 17 (js ''0.8f'')) editingA) \<noteq> notesRef editingA"
proof -
  have a: "editingNote editingA = Some (0, note_a)"
    by (simp add: editingNote_def editingA_def note_a_def)
  have b: "id_n note_a \<noteq> []" "id_n note_a \<noteq> NEW"
    by (simp_all add: note_a_def js_def NEW_def)
  have c: "trim (title editingA) = title_n note_a" "trim (body editingA) = body_n note_a"
    by (simp_all add: editingA_def note_a_def trim_T trim_B)
  have d: "title_n note_a \<noteq> [] \<or> body_n note_a \<noteq> []"
    by (simp add: note_a_def js_def)
  have e: "title_n note_a \<noteq> []"
    by (simp add: note_a_def js_def)
  show ?thesis
    using a c C9_no_change_detection [OF a b c d, of "js ''t1''" 17 "js ''0.8f''"]
    by (simp add: list_notes_def editingA_def orElse_def e) (simp add: note_a_def)
qed

text \<open>
  The claim C9 as stated fails in three states in which the drafts are the title and
  the body of the edited note. For a blank note the guard on empty drafts returns
  first; for a note whose id is the empty string the test \<open>if (editingId)\<close> is
  false: in both the state is unchanged. For a note whose id is \<open>NEW\<close> the save
  adds a new note and leaves the edited one with its old \<open>updatedAt\<close>.
\<close>

theorem C9_counterexample:
  "editingNote editingBlank = Some (0, note_blank) \<and>
   trim (title editingBlank) = title_n note_blank \<and> trim (body editingBlank) = body_n note_blank \<and>
   dispatch (SaveCurrent (js ''t1'') 17 (js ''0.8f'')) editingBlank = editingBlank \<and>
   editingNote editingNoId = Some (0, note_noid) \<and>
   trim (title editingNoId) = title_n note_noid \<and> trim (body editingNoId) = body_n note_noid \<and>
   dispatch (SaveCurrent (js ''t1'') 17 (js ''0.8f'')) editingNoId = editingNoId \<and>
   editingNote editingNEW = Some (0, note_NEW) \<and>
   trim (title editingNEW) = title_n note_NEW \<and> trim (body editingNEW) = body_n note_NEW \<and>
   list_notes (dispatch (SaveCurrent (js ''t1'') 17 (js ''0.8f'')) editingNEW) =
     [\<lparr>id_n = js ''17_8f'', title_n = js ''x'', body_n = [], updatedAt = js ''t1''\<rparr>, note_NEW] \<and>
   updatedAt note_blank = js ''t0'' \<and> updatedAt note_noid = js ''t0'' \<and>
   updatedAt note_NEW = js ''t0'' \<and> js ''t0'' \<noteq> js ''t1''"
proof -
  have d: "generateId 17 (js ''0.8f'') = js ''17_8f''"
    by (simp add: generateId_def digits.simps js_def)
  have f: "js ''T'' \<noteq> []" "js ''x'' \<noteq> []"
    by (simp_all add: js_def)
  have g: "Some [] \<noteq> Some NEW"
    by (simp add: NEW_def js_def)
  have tx: "trim (js ''x'') = js ''x''" "trim [] = []"
    by (simp_all add: trim_def js_def isWhiteSpace_def)
  have 1: "dispatch (SaveCurrent (js ''t1'') 17 (js ''0.8f'')) editingBlank = editingBlank"
    by (simp add: dispatch_def saveCurrent_def editingBlank_def tx runEffects_same)
  have 2: "dispatch (SaveCurrent (js ''t1'') 17 (js ''0.8f'')) editingNoId = editingNoId"
    using g by (simp add: dispatch_def saveCurrent_def editingNoId_def trim_T trim_B f runEffects_same)
  have 3: "list_notes (dispatch (SaveCurrent (js ''t1'') 17 (js ''0.8f'')) editingNEW) =
     [\<lparr>id_n = js ''17_8f'', title_n = js ''x'', body_n = [], updatedAt = js ''t1''\<rparr>, note_NEW]"
  proof -
    have a: "editingId editingNEW = Some NEW"
      by (simp add: editingNEW_def)
    have b: "trim (title editingNEW) \<noteq> [] \<or> trim (body editingNEW) \<noteq> []"
      by (simp add: editingNEW_def tx f)
    show ?thesis
      by (simp add: dispatch_save_new [OF a b] list_notes_def d)
         (simp add: editingNEW_def tx orElse_def f)
  qed
  show ?thesis
    unfolding 1 2 3
    by (simp add: editingNote_def editingBlank_def editingNoId_def editingNEW_def
        note_blank_def note_noid_def note_NEW_def tx trim_T trim_B)
       (simp add: js_def)
qed

section \<open>The edit target over sequences of events\<close>

lemma runEffects_notes [simp]: "notes_st (runEffects prev next) = notes_st next"
  by (simp add: runEffects_def saveEffect_def Let_def split: option.splits)

lemma runEffects_editingId [simp]: "editingId (runEffects prev next) = editingId next"
  by (simp add: runEffects_def saveEffect_def Let_def split: option.splits)

lemma ids_dispatch: "ids (dispatch ev st) = ids (handler ev st)"
  by (simp add: dispatch_def ids_def)

lemma mapEdited_ids:
  "map (\<lambda>n. id_n (snd n)) (mapEdited r e t b now ns) = map (\<lambda>n. id_n (snd n)) ns"
  by (induction ns arbitrary: r) auto

lemma mapEdited_id_set:
  "(\<lambda>n. id_n (snd n)) ` set (mapEdited r e t b now ns) = (\<lambda>n. id_n (snd n)) ` set ns"
  using mapEdited_ids [of r e t b now ns] by (metis set_map)

lemma ids_saveCurrent:
  "ids (saveCurrent now dateNow rnd st) \<subseteq> insert (generateId dateNow rnd) (ids st)"
  by (cases "editingId st")
     (auto simp add: saveCurrent_def Let_def ids_def mapEdited_ids simp del: set_map)

lemma ids_saveCurrent_sup: "ids st \<subseteq> ids (saveCurrent now dateNow rnd st)"
  by (cases "editingId st")
     (auto simp add: saveCurrent_def Let_def ids_def mapEdited_ids simp del: set_map)

lemma ids_deleteNote: "ids (deleteNote x st) = ids st - {x}"
  by (auto simp add: deleteNote_def cancelEdit_def Let_def ids_def)

lemma ids_handler: "ids (handler ev st) \<subseteq> ids st \<union> {i. generates i ev}"
proof (cases ev)
  case (SaveCurrent now dateNow rnd)
  then show ?thesis using ids_saveCurrent [of now dateNow rnd st] by auto
next
  case (DeleteNote x)
  then show ?thesis by (auto simp add: ids_deleteNote)
qed (simp_all add: startNew_def startEdit_def cancelEdit_def ids_def)

lemma absent_step:
  "i \<notin> ids st \<Longrightarrow> \<not> generates i ev \<Longrightarrow> i \<notin> ids (dispatch ev st)"
  using ids_handler [of ev st] by (auto simp add: ids_dispatch)

lemma absent_run:
  "i \<notin> ids st \<Longrightarrow> list_all (\<lambda>ev. \<not> generates i ev) evs \<Longrightarrow> i \<notin> ids (run evs st)"
  by (induction evs arbitrary: st) (simp_all add: absent_step)


lemma dispatch_delete_edited:
  assumes "editingId st = Some i"
  shows "dispatch (DeleteNote i) st =
           st\<lparr>notes_st := filter (\<lambda>n. id_n (snd n) \<noteq> i) (notes_st st),
              notesRef := Suc (notesRef st),
              editingId := None, title := [], body := [],
              storage := saveNotesToStorage
                 (map snd (filter (\<lambda>n. id_n (snd n) \<noteq> i) (notes_st st))) (storage st)\<rparr>"
proof -
  have d: "deleteNote i st =
           st\<lparr>notes_st := filter (\<lambda>n. id_n (snd n) \<noteq> i) (notes_st st),
              notesRef := Suc (notesRef st),
              editingId := None, title := [], body := []\<rparr>"
    using assms by (simp add: deleteNote_def cancelEdit_def Let_def)
  have "editingNote (deleteNote i st) = None"
    by (simp add: d)
  then show ?thesis
    by (simp add: dispatch_def runEffects_no_note saveEffect_def) (simp add: d)
qed

lemma trim_Nil [simp]: "trim [] = []"
  by (simp add: trim_def)

text \<open>
  Claim C6. When the editor is open on the id \<open>i\<close>, deleting \<open>i\<close> closes the
  editor and clears both drafts, and no note with that id is left. A save right
  after it changes nothing, and after any sequence of events whatever in which
  \<open>generateId\<close> does not return \<open>i\<close> the collection still has no note with the id
  \<open>i\<close>: no save writes the deleted note again. Moreover, in any state in which
  the editor is open on an id that no note has (other than \<open>NEW\<close>), a save leaves
  the notes as they are: it commits no draft for a note that is gone.
\<close>

theorem C6_delete_while_editing:
  "(editingId st = Some i \<longrightarrow>
      editingId (dispatch (DeleteNote i) st) = None \<and>
      title (dispatch (DeleteNote i) st) = [] \<and>
      body (dispatch (DeleteNote i) st) = [] \<and>
      i \<notin> ids (dispatch (DeleteNote i) st) \<and>
      dispatch (SaveCurrent now dateNow rnd) (dispatch (DeleteNote i) st) = dispatch (DeleteNote i) st \<and>
      (list_all (\<lambda>ev. \<not> generates i ev) evs \<longrightarrow> i \<notin> ids (run evs (dispatch (DeleteNote i) st)))) \<and>
   (editingId s = Some e \<and> e \<noteq> NEW \<and> e \<notin> ids s \<longrightarrow>
      notes_st (dispatch (SaveCurrent now dateNow rnd) s) = notes_st s)"
proof (intro conjI impI)
  assume a: "editingId st = Some i"
  note d = dispatch_delete_edited [OF a]
  show "editingId (dispatch (DeleteNote i) st) = None"
    and "title (dispatch (DeleteNote i) st) = []"
    and "body (dispatch (DeleteNote i) st) = []"
    by (simp_all add: d)
  show n: "i \<notin> ids (dispatch (DeleteNote i) st)"
    by (simp add: ids_dispatch ids_deleteNote)
  show "dispatch (SaveCurrent now dateNow rnd) (dispatch (DeleteNote i) st) = dispatch (DeleteNote i) st"
    by (simp add: d) (simp add: dispatch_def saveCurrent_def runEffects_same)
  show "i \<notin> ids (run evs (dispatch (DeleteNote i) st))"
    if "list_all (\<lambda>ev. \<not> generates i ev) evs"
    using n that by (rule absent_run)
next
  assume "editingId s = Some e \<and> e \<noteq> NEW \<and> e \<notin> ids s"
  then have e: "editingId s = Some e" and n: "e \<noteq> NEW" and m: "e \<notin> ids s"
    by simp_all
  have "notes_st (saveCurrent now dateNow rnd s) = notes_st s"
    using e n m by (simp add: saveCurrent_def Let_def ids_def mapEdited_absent)
  then show "notes_st (dispatch (SaveCurrent now dateNow rnd) s) = notes_st s"
    by (simp add: dispatch_def)
qed

theorem C6_delete_while_editing_witness:
  "editingId editingA = Some (js ''a'') \<and>
   editingId (dispatch (DeleteNote (js ''a'')) editingA) = None \<and>
   title (dispatch (DeleteNote (js ''a'')) editingA) = [] \<and>
   body (dispatch (DeleteNote (js ''a'')) editingA) = [] \<and>
   js ''a'' \<notin> ids (run [StartNew, SetTitle (js ''T''), SaveCurrent (js ''t1'') 17 (js ''0.8f''),
                          StartEdit (js ''a''), SetTitle (js ''T''), SaveCurrent (js ''t2'') 18 (js ''0.8f'')]
                      (dispatch (DeleteNote (js ''a'')) editingA)) \<and>
   editingId editingMissing = Some (js ''gone'') \<and> js ''gone'' \<notin> ids editingMissing \<and>
   notes_st (dispatch (SaveCurrent (js ''t1'') 17 (js ''0.8f'')) editingMissing) = notes_st editingMissing"
proof -
  let ?evs = "[StartNew, SetTitle (js ''T''), SaveCurrent (js ''t1'') 17 (js ''0.8f''),
               StartEdit (js ''a''), SetTitle (js ''T''), SaveCurrent (js ''t2'') 18 (js ''0.8f'')]"
  have a: "editingId editingA = Some (js ''a'')"
    by (simp add: editingA_def)
  have g: "list_all (\<lambda>ev. \<not> generates (js ''a'') ev) ?evs"
    by (simp add: generateId_def digits.simps js_def)
  have e: "editingId editingMissing = Some (js ''gone'')"
    by (simp add: editingMissing_def)
  have n: "js ''gone'' \<noteq> NEW"
    by (simp add: js_def NEW_def)
  have m: "js ''gone'' \<notin> ids editingMissing"
    by (simp add: ids_def editingMissing_def note_a_def js_def)
  from C6_delete_while_editing [of editingA "js ''a''" "js ''t1''" 17 "js ''0.8f''" ?evs
      editingMissing "js ''gone''"]
  show ?thesis
    using a g e n m by simp
qed

section \<open>The search filter\<close>



lemma unat_add_small:
  "unat (k :: 16 word) + unat d < 65536 \<Longrightarrow> unat (k + d) = unat k + unat d"
  using unat_add_lem [of k d] by simp






















section \<open>The id of a new note\<close>

lemma digitValue_digit: "k < 10 \<Longrightarrow> digitValue (0x30 + of_nat k) = k"
  by (simp add: digitValue_def unat_of_nat)

lemma decimalValue_snoc: "decimalValue (cs @ [c]) = 10 * decimalValue cs + digitValue c"
  by (simp add: decimalValue_def)

lemma decimalValue_single: "decimalValue [c] = digitValue c"
  by (simp add: decimalValue_def)

lemma decimalValue_digits: "decimalValue (digits n) = n"
proof (induction n rule: digits.induct)
  case (1 n)
  show ?case
  proof (cases "n < 10")
    case True
    then show ?thesis
      by (subst digits.simps) (simp add: decimalValue_single digitValue_digit)
  next
    case False
    with "1.IH" have "decimalValue (digits (n div 10)) = n div 10"
      by simp
    with False show ?thesis
      by (subst digits.simps) (simp add: decimalValue_snoc digitValue_digit)
  qed
qed

lemma digits_inj: "digits m = digits n \<Longrightarrow> m = n"
proof -
  assume "digits m = digits n"
  then have "decimalValue (digits m) = decimalValue (digits n)"
    by (rule arg_cong)
  then show "m = n"
    by (simp only: decimalValue_digits)
qed

lemma digit_not_underscore: "k < 10 \<Longrightarrow> 0x30 + of_nat k \<noteq> (0x5F :: 16 word)"
proof
  assume k: "k < 10" and e: "0x30 + of_nat k = (0x5F :: 16 word)"
  from e have "digitValue (0x30 + of_nat k) = digitValue 0x5F"
    by simp
  with k have "k = digitValue 0x5F"
    by (simp only: digitValue_digit)
  also have "digitValue 0x5F = 47"
    by (simp add: digitValue_def)
  finally show False
    using k by simp
qed

lemma underscore_notin_digits: "0x5F \<notin> set (digits n)"
proof (induction n rule: digits.induct)
  case (1 n)
  show ?case
  proof (cases "n < 10")
    case True
    then show ?thesis
      using digit_not_underscore [of n] by (subst digits.simps) auto
  next
    case False
    with "1.IH" have "0x5F \<notin> set (digits (n div 10))"
      by simp
    with False show ?thesis
      using digit_not_underscore [of "n mod 10"] by (subst digits.simps) auto
  qed
qed

lemma split_at_mark:
  "x \<notin> set a \<Longrightarrow> x \<notin> set b \<Longrightarrow> a @ x # u = b @ x # v \<Longrightarrow> a = b \<and> u = v"
proof (induction a arbitrary: b)
  case Nil
  show ?case
  proof (cases b)
    case Nil
    with Nil.prems show ?thesis by simp
  next
    case (Cons z b')
    with Nil.prems show ?thesis by simp
  qed
next
  case (Cons y a)
  show ?case
  proof (cases b)
    case Nil
    with Cons.prems show ?thesis by simp
  next
    case c: (Cons z b')
    with Cons.prems have "y = z" and "a @ x # u = b' @ x # v" and "x \<notin> set a" and "x \<notin> set b'"
      by simp_all
    with Cons.IH [of b'] c show ?thesis by simp
  qed
qed

lemma generateId_inj:
  "generateId d r = generateId d' r' \<longleftrightarrow> d = d' \<and> drop 2 r = drop 2 r'"
proof
  assume "generateId d r = generateId d' r'"
  then have "digits d @ 0x5F # drop 2 r = digits d' @ 0x5F # drop 2 r'"
    by (simp add: generateId_def js_def)
  from split_at_mark [OF underscore_notin_digits underscore_notin_digits this]
  show "d = d' \<and> drop 2 r = drop 2 r'"
    by (auto dest: digits_inj)
next
  assume "d = d' \<and> drop 2 r = drop 2 r'"
  then show "generateId d r = generateId d' r'"
    by (simp add: generateId_def)
qed

lemma underscore_in_generateId: "0x5F \<in> set (generateId d r)"
  by (simp add: generateId_def js_def)

lemma generateId_not_NEW: "generateId d r \<noteq> NEW" "generateId d r \<noteq> []"
proof -
  have "0x5F \<notin> set NEW"
    by (simp add: NEW_def js_def)
  with underscore_in_generateId [of d r] show "generateId d r \<noteq> NEW"
    by metis
  from underscore_in_generateId [of d r] show "generateId d r \<noteq> []"
    by (metis empty_iff empty_set)
qed

text \<open>
  Claim C4, as the code has it. When a new note is being composed (\<open>editingId\<close> is
  \<open>NEW\<close>) and the trimmed title or the trimmed body is not empty, the save puts one
  new note object in front of the collection: its title is the trimmed title, or
  \<open>Untitled\<close> when that is empty, its body the trimmed body, its \<open>updatedAt\<close> the
  current time. The collection is one longer and its tail is the collection
  before, so the notes that were there are unchanged and in their order. The id is
  the value of \<open>generateId\<close>: two such values are equal only when the clock readings
  are equal and the random digits are equal, and the value is never empty and never
  \<open>NEW\<close>. It is not compared with the ids of the collection: the ids stay distinct
  when the value is not yet the id of a note.
\<close>

theorem C4_create:
  assumes "editingId st = Some NEW"
    and "trim (title st) \<noteq> [] \<or> trim (body st) \<noteq> []"
  shows "notes_st (dispatch (SaveCurrent now dateNow rnd) st) =
           (heap st, \<lparr>id_n = generateId dateNow rnd,
                      title_n = (if trim (title st) = [] then Untitled else trim (title st)),
                      body_n = trim (body st),
                      updatedAt = now\<rparr>) # notes_st st \<and>
         length (list_notes (dispatch (SaveCurrent now dateNow rnd) st)) = Suc (length (list_notes st)) \<and>
         tl (list_notes (dispatch (SaveCurrent now dateNow rnd) st)) = list_notes st \<and>
         (generateId dateNow rnd = generateId dateNow' rnd' \<longleftrightarrow>
            dateNow = dateNow' \<and> drop 2 rnd = drop 2 rnd') \<and>
         generateId dateNow rnd \<noteq> NEW \<and> generateId dateNow rnd \<noteq> [] \<and>
         (generateId dateNow rnd \<notin> ids st \<and> distinct (map id_n (list_notes st)) \<longrightarrow>
            distinct (map id_n (list_notes (dispatch (SaveCurrent now dateNow rnd) st))))"
proof -
  note d = dispatch_save_new [OF assms, of now dateNow rnd]
  have 1: "notes_st (dispatch (SaveCurrent now dateNow rnd) st) =
           (heap st, \<lparr>id_n = generateId dateNow rnd,
                      title_n = (if trim (title st) = [] then Untitled else trim (title st)),
                      body_n = trim (body st),
                      updatedAt = now\<rparr>) # notes_st st"
    by (simp add: d orElse_def)
  have 2: "length (list_notes (dispatch (SaveCurrent now dateNow rnd) st)) = Suc (length (list_notes st))"
    and 3: "tl (list_notes (dispatch (SaveCurrent now dateNow rnd) st)) = list_notes st"
    by (simp_all add: 1 list_notes_def)
  have 4: "distinct (map id_n (list_notes (dispatch (SaveCurrent now dateNow rnd) st)))"
    if "generateId dateNow rnd \<notin> ids st \<and> distinct (map id_n (list_notes st))"
    using that by (simp add: 1 list_notes_def ids_def image_image)
  from 1 2 3 4 generateId_inj [of dateNow rnd dateNow' rnd'] generateId_not_NEW [of dateNow rnd]
  show ?thesis
    by (intro conjI impI)
qed

theorem C4_create_witness:
  "editingId creatingNEW = Some NEW \<and> trim (title creatingNEW) = js ''draft'' \<and>
   list_notes (dispatch (SaveCurrent (js ''t1'') 17 (js ''0.8f'')) creatingNEW) =
     [\<lparr>id_n = js ''17_8f'', title_n = js ''draft'', body_n = [], updatedAt = js ''t1''\<rparr>, note_NEW]"
proof -
  have a: "editingId creatingNEW = Some NEW"
    by (simp add: creatingNEW_def)
  have b: "trim (title creatingNEW) = js ''draft''"
    by (simp add: creatingNEW_def trim_def js_def isWhiteSpace_def)
  have c: "trim (title creatingNEW) \<noteq> [] \<or> trim (body creatingNEW) \<noteq> []"
    by (simp add: b) (simp add: js_def)
  have d: "generateId 17 (js ''0.8f'') = js ''17_8f''"
    by (simp add: generateId_def digits.simps js_def)
  have e: "trim (body creatingNEW) = []"
    by (simp add: creatingNEW_def trim_def)
  have f: "js ''draft'' \<noteq> []"
    by (simp add: js_def)
  from C4_create [OF a c, of "js ''t1''" 17 "js ''0.8f''", THEN conjunct1]
  have "notes_st (dispatch (SaveCurrent (js ''t1'') 17 (js ''0.8f'')) creatingNEW) =
          (heap creatingNEW,
           \<lparr>id_n = js ''17_8f'', title_n = js ''draft'', body_n = [], updatedAt = js ''t1''\<rparr>)
          # notes_st creatingNEW"
    by (simp add: b d e f)
  then show ?thesis
    using a b by (simp add: list_notes_def creatingNEW_def)
qed

text \<open>
  The claim C4 as stated fails where it calls the id fresh: when the collection
  already holds a note with the id that \<open>generateId\<close> returns (a stored note, or a
  note created at the same clock reading with the same random digits), the new note
  has the id of that note.
\<close>

lemma generateId_dup: "generateId 1768364340000 (js ''0.8f3a'') = js ''1768364340000_8f3a''"
  by (simp add: generateId_def digits.simps js_def)

theorem C4_counterexample:
  "editingId creatingDup = Some NEW \<and> trim (title creatingDup) = js ''draft'' \<and>
   map id_n (list_notes creatingDup) = [js ''1768364340000_8f3a''] \<and>
   map id_n (list_notes (dispatch (SaveCurrent (js ''t1'') 1768364340000 (js ''0.8f3a'')) creatingDup)) =
     [js ''1768364340000_8f3a'', js ''1768364340000_8f3a'']"
proof -
  have a: "editingId creatingDup = Some NEW"
    by (simp add: creatingDup_def)
  have b: "trim (title creatingDup) = js ''draft''"
    by (simp add: creatingDup_def trim_def js_def isWhiteSpace_def)
  have c: "trim (title creatingDup) \<noteq> [] \<or> trim (body creatingDup) \<noteq> []"
    by (simp add: b) (simp add: js_def)
  have 1: "map id_n (list_notes creatingDup) = [js ''1768364340000_8f3a'']"
    by (simp add: list_notes_def creatingDup_def note_dup_def)
  have 2: "map id_n (list_notes (dispatch (SaveCurrent (js ''t1'') 1768364340000 (js ''0.8f3a'')) creatingDup)) =
     [js ''1768364340000_8f3a'', js ''1768364340000_8f3a'']"
    by (simp add: dispatch_save_new [OF a c] list_notes_def generateId_dup)
       (simp add: creatingDup_def note_dup_def)
  from a b 1 2 show ?thesis
    by (intro conjI)
qed

section \<open>The round trip through the storage\<close>

text \<open>
  \<open>JSON.parse\<close> reads back what \<open>JSON.stringify\<close> wrote: first the escapes of a
  string, then a string, a note, the array of the notes.
\<close>

lemma hexValue_hexDigit:
  assumes "d < 16"
  shows "hexValue (hexDigit d) = Some d"
proof -
  from assms have d: "unat d < 16"
    by (simp add: word_less_nat_alt)
  have a: "unat (0x30 + d) = 48 + unat d" and b: "unat (0x57 + d) = 87 + unat d"
    using d by (simp_all add: unat_add_small)
  show ?thesis
  proof (cases "d < 10")
    case True
    then have "unat d < 10"
      by (simp add: word_less_nat_alt)
    then show ?thesis
      using True by (simp add: hexValue_def hexDigit_def word_le_nat_alt a)
  next
    case False
    then have "10 \<le> unat d"
      by (simp add: word_less_nat_alt)
    then show ?thesis
      using False d by (simp add: hexValue_def hexDigit_def word_le_nat_alt b)
  qed
qed

lemma F_mask: "(0xF :: 16 word) = mask 4"
  by (simp add: mask_eq_exp_minus_1)

lemma and_F_less: "(x :: 16 word) AND 0xF < 16"
  unfolding F_mask using and_mask_less' [of 4 x] by simp

lemma drop12_less: "drop_bit 12 (c :: 16 word) < 16"
proof -
  have "unat c < 2 ^ LENGTH(16)"
    by (rule unsigned_less)
  then have "unat c < 65536"
    by simp
  then have "unat c div 4096 < 16"
    by simp
  then show ?thesis
    by (simp add: word_less_nat_alt drop_bit_eq_div unat_div)
qed

lemma nibbles_join:
  "push_bit 12 (drop_bit 12 c) OR push_bit 8 (drop_bit 8 c AND 0xF) OR
   push_bit 4 (drop_bit 4 c AND 0xF) OR (c AND 0xF) = (c :: 16 word)"
  unfolding F_mask
proof (rule bit_word_eqI)
  fix n
  assume "n < LENGTH(16)"
  then have n: "n < 16"
    by simp
  consider "n < 4" | "4 \<le> n" "n < 8" | "8 \<le> n" "n < 12" | "12 \<le> n"
    by linarith
  then show "bit (push_bit 12 (drop_bit 12 c) OR push_bit 8 (drop_bit 8 c AND mask 4) OR
      push_bit 4 (drop_bit 4 c AND mask 4) OR (c AND mask 4)) n = bit c n"
    using n by cases (auto simp add: bit_simps)
qed

lemma hex4_hexDigit:
  "a < 16 \<Longrightarrow> b < 16 \<Longrightarrow> x < 16 \<Longrightarrow> y < 16 \<Longrightarrow>
   hex4 (hexDigit a) (hexDigit b) (hexDigit x) (hexDigit y) =
     Some (push_bit 12 a OR push_bit 8 b OR push_bit 4 x OR y)"
  by (simp add: hex4_def hexValue_hexDigit)

lemma hex4_unicodeEscape:
  "hex4 (hexDigit (drop_bit 12 c)) (hexDigit (drop_bit 8 c AND 0xF))
        (hexDigit (drop_bit 4 c AND 0xF)) (hexDigit (c AND 0xF)) = Some c"
  by (simp only: hex4_hexDigit [OF drop12_less and_F_less and_F_less and_F_less] nibbles_join)

lemma shortEscape_Some: "shortEscape c = Some e \<Longrightarrow> e \<noteq> 0x75 \<and> unescape e = Some c"
  by (auto simp add: shortEscape_def unescape_def split: if_splits)

lemma shortEscape_None: "shortEscape c = None \<Longrightarrow> c \<noteq> 0x22 \<and> c \<noteq> 0x5C"
  by (auto simp add: shortEscape_def split: if_splits)

lemma parseChars_short:
  "shortEscape c = Some e \<Longrightarrow> parseChars (0x5C # e # r) = consTo c (parseChars r)"
  by (simp add: shortEscape_Some)

lemma parseChars_escape: "parseChars (unicodeEscape c @ r) = consTo c (parseChars r)"
  by (simp add: unicodeEscape_def hex4_unicodeEscape)

lemma parseChars_literal:
  "c \<noteq> 0x22 \<Longrightarrow> c \<noteq> 0x5C \<Longrightarrow> \<not> c < 0x20 \<Longrightarrow> parseChars (c # r) = consTo c (parseChars r)"
  by simp

lemma trailing_literal:
  "isTrailingSurrogate d \<Longrightarrow> d \<noteq> 0x22 \<and> d \<noteq> 0x5C \<and> \<not> d < 0x20"
  by (auto simp add: isTrailingSurrogate_def word_le_nat_alt word_less_nat_alt)


lemma parseChars_Nil: "parseChars [] = None"
  by simp

lemma parseChars_quote: "parseChars (0x22 # rest) = Some ([], rest)"
  by simp

declare parseChars.simps [simp del]

lemma parseChars_quoteUnits:
  "parseChars (quoteUnits s @ 0x22 # rest) = Some (s, rest)"
proof (induction s rule: quoteUnits.induct)
  case 1
  show ?case by (simp add: parseChars_quote)
next
  case (2 c cs)
  show ?case
  proof (cases "shortEscape c")
    case (Some e)
    with "2.IH"(6) [OF Some] show ?thesis
      by (simp add: parseChars_short consTo_def)
  next
    case None
    note lit = shortEscape_None [OF None]
    show ?thesis
    proof (cases "c < 0x20")
      case True
      with None "2.IH"(1) [OF None True] show ?thesis
        by (simp add: parseChars_escape consTo_def)
    next
      case False
      show ?thesis
      proof (cases "isLeadingSurrogate c")
        case lead: True
        show ?thesis
        proof (cases cs)
          case Nil
          with None False lead show ?thesis
            using parseChars_escape [of c "0x22 # rest"]
            by (simp add: consTo_def parseChars_quote)
        next
          case (Cons d ds)
          show ?thesis
          proof (cases "isTrailingSurrogate d")
            case True
            with None False lead Cons "2.IH"(2) [OF None False lead Cons True] lit
              trailing_literal [OF True] show ?thesis
              by (simp add: parseChars_literal consTo_def)
          next
            case nt: False
            from "2.IH"(3) [OF None False lead Cons nt]
            have "parseChars (quoteUnits cs @ 0x22 # rest) = Some (cs, rest)" .
            with None False lead Cons nt show ?thesis
              using parseChars_escape [of c "quoteUnits cs @ 0x22 # rest"]
              by (simp add: consTo_def)
          qed
        qed
      next
        case nl: False
        show ?thesis
        proof (cases "isTrailingSurrogate c")
          case True
          with None False nl "2.IH"(4) [OF None False nl True] show ?thesis
            by (simp add: parseChars_escape consTo_def)
        next
          case False2: False
          with None False nl "2.IH"(5) [OF None False nl False2] lit show ?thesis
            by (simp add: parseChars_literal consTo_def)
        qed
      qed
    qed
  qed
qed


lemma js_punct:
  "js ''{'' = [0x7B]" "js ''}'' = [0x7D]" "js ''['' = [0x5B]" "js '']'' = [0x5D]"
  "js '':'' = [0x3A]" "js '','' = [0x2C]"
  by (simp_all add: js_def)

lemma skipWS_punct [simp]:
  "skipWS (0x22 # r) = 0x22 # r" "skipWS (0x3A # r) = 0x3A # r" "skipWS (0x2C # r) = 0x2C # r"
  "skipWS (0x7D # r) = 0x7D # r" "skipWS (0x7B # r) = 0x7B # r" "skipWS (0x5D # r) = 0x5D # r"
  "skipWS (0x5B # r) = 0x5B # r" "skipWS [] = []"
  by (simp_all add: skipWS_def isJSONWhiteSpace_def)

lemma quoteJSONString_Cons: "quoteJSONString v @ rest = 0x22 # quoteUnits v @ 0x22 # rest"
  by (simp add: quoteJSONString_def)

lemma parseValue_string: "parseValue (quoteJSONString v @ rest) = Some (JString v, rest)"
  by (simp add: quoteJSONString_Cons parseValue.simps parseChars_quoteUnits)

lemma parseMembers_next:
  "parseMembers (quoteJSONString k @ 0x3A # quoteJSONString v @ 0x2C # ms) =
     consTo (k, JString v) (parseMembers ms)"
  by (subst parseMembers.simps)
     (simp add: quoteJSONString_Cons [of k] parseChars_quoteUnits parseValue_string)

lemma parseMembers_last:
  "parseMembers (quoteJSONString k @ 0x3A # quoteJSONString v @ 0x7D # rest) =
     Some ([(k, JString v)], rest)"
  by (subst parseMembers.simps)
     (simp add: quoteJSONString_Cons [of k] parseChars_quoteUnits parseValue_string)

lemma stringifyNote_shape:
  "stringifyNote n @ rest =
     0x7B # quoteJSONString (js ''id'') @ 0x3A # quoteJSONString (id_n n) @
     0x2C # quoteJSONString (js ''title'') @ 0x3A # quoteJSONString (title_n n) @
     0x2C # quoteJSONString (js ''body'') @ 0x3A # quoteJSONString (body_n n) @
     0x2C # quoteJSONString (js ''updatedAt'') @ 0x3A # quoteJSONString (updatedAt n) @
     0x7D # rest"
  by (simp add: stringifyNote_def js_punct)

lemma parseValue_object:
  assumes "parseMembers (quoteJSONString k @ x) = Some (ms, rest)"
  shows "parseValue (0x7B # quoteJSONString k @ x) = Some (JObject ms, rest)"
  using assms by (subst parseValue.simps) (simp add: quoteJSONString_Cons)

lemma parseValue_array:
  assumes "parseElements (0x7B # x) = Some (vs, rest)"
  shows "parseValue (0x5B # 0x7B # x) = Some (JArray vs, rest)"
  using assms by (subst parseValue.simps) simp

lemma parseValue_note: "parseValue (stringifyNote n @ rest) = Some (noteJSON n, rest)"
proof -
  have m: "parseMembers
     (quoteJSONString (js ''id'') @ 0x3A # quoteJSONString (id_n n) @
      0x2C # quoteJSONString (js ''title'') @ 0x3A # quoteJSONString (title_n n) @
      0x2C # quoteJSONString (js ''body'') @ 0x3A # quoteJSONString (body_n n) @
      0x2C # quoteJSONString (js ''updatedAt'') @ 0x3A # quoteJSONString (updatedAt n) @
      0x7D # rest) =
     Some ([(js ''id'', JString (id_n n)), (js ''title'', JString (title_n n)),
            (js ''body'', JString (body_n n)), (js ''updatedAt'', JString (updatedAt n))], rest)"
    by (simp only: parseMembers_next parseMembers_last consTo_def option.case prod.case)
  show ?thesis
    unfolding stringifyNote_shape noteJSON_def by (rule parseValue_object [OF m])
qed

lemma stringifyNote_first: "\<exists>r. stringifyNote n = 0x7B # r"
  by (simp add: stringifyNote_def js_punct)

lemma parseElements_notes:
  "ns \<noteq> [] \<Longrightarrow>
   parseElements (joinComma (map stringifyNote ns) @ 0x5D # rest) = Some (map noteJSON ns, rest)"
proof (induction ns rule: induct_list012)
  case 1
  then show ?case by simp
next
  case (2 n)
  show ?case
    by (subst parseElements.simps) (simp add: parseValue_note)
next
  case (3 n m ms)
  then have IH: "parseElements (joinComma (map stringifyNote (m # ms)) @ 0x5D # rest) =
      Some (map noteJSON (m # ms), rest)"
    by simp
  have "parseElements (stringifyNote n @ 0x2C # joinComma (map stringifyNote (m # ms)) @ 0x5D # rest) =
      Some (map noteJSON (n # m # ms), rest)"
    using IH by (subst parseElements.simps) (simp add: parseValue_note consTo_def)
  then show ?case
    by (simp add: js_punct)
qed

lemma joinComma_first: "ns \<noteq> [] \<Longrightarrow> \<exists>r. joinComma (map stringifyNote ns) = 0x7B # r"
proof (induction ns rule: induct_list012)
  case 1
  then show ?case by simp
next
  case (2 n)
  then show ?case using stringifyNote_first [of n] by simp
next
  case (3 n m ms)
  then show ?case using stringifyNote_first [of n] by auto
qed

lemma JSON_parse_stringify: "JSON_parse (JSON_stringify ns) = Inr (JArray (map noteJSON ns))"
proof (cases "ns = []")
  case True
  then show ?thesis
    by (simp add: JSON_parse_def JSON_stringify_def js_punct parseValue.simps)
next
  case False
  from joinComma_first [OF False] obtain r where r: "joinComma (map stringifyNote ns) = 0x7B # r"
    by blast
  from parseElements_notes [OF False, of "[]"]
  have "parseElements (0x7B # r @ [0x5D]) = Some (map noteJSON ns, [])"
    by (simp add: r)
  then have "parseValue (0x5B # 0x7B # r @ [0x5D]) = Some (JArray (map noteJSON ns), [])"
    by (rule parseValue_array)
  then have "parseValue (0x5B # joinComma (map stringifyNote ns) @ 0x5D # []) =
      Some (JArray (map noteJSON ns), [])"
    by (simp add: r)
  then show ?thesis
    by (simp add: JSON_parse_def JSON_stringify_def js_punct)
qed


lemma js_keys [simp]:
  "js ''id'' \<noteq> js ''title''" "js ''id'' \<noteq> js ''body''" "js ''id'' \<noteq> js ''updatedAt''"
  "js ''title'' \<noteq> js ''body''" "js ''title'' \<noteq> js ''updatedAt''"
  "js ''body'' \<noteq> js ''updatedAt''"
  "js ''title'' \<noteq> js ''id''" "js ''body'' \<noteq> js ''id''" "js ''updatedAt'' \<noteq> js ''id''"
  "js ''body'' \<noteq> js ''title''" "js ''updatedAt'' \<noteq> js ''title''"
  "js ''updatedAt'' \<noteq> js ''body''"
  by (simp_all add: js_def)

lemma coerceNote_noteJSON: "coerceNote env k (noteJSON n) = Inr n"
  by (simp add: coerceNote_def noteJSON_def nullish_def)

lemma mapNotes_noteJSON: "mapNotes env k (map noteJSON ns) = Inr ns"
  by (induction ns arbitrary: k) (simp_all add: coerceNote_noteJSON)

lemma filter_isObject_noteJSON: "filter isObject (map noteJSON ns) = map noteJSON ns"
  by (induction ns) (simp_all add: isObject_def noteJSON_def)

lemma JSON_stringify_nonempty: "JSON_stringify ns \<noteq> []"
  by (simp add: JSON_stringify_def js_punct)

lemma load_stored:
  "accessible s \<Longrightarrow> item s = Some (JSON_stringify ns) \<Longrightarrow> loadNotesFromStorage env s = ns"
  by (simp add: loadNotesFromStorage_def getItem_def JSON_stringify_nonempty JSON_parse_stringify
      filter_isObject_noteJSON mapNotes_noteJSON)

lemma save_written:
  "accessible s \<Longrightarrow> length STORAGE_KEY + length (JSON_stringify ns) \<le> quota s \<Longrightarrow>
   saveNotesToStorage ns s = s\<lparr>item := Some (JSON_stringify ns)\<rparr>"
  by (simp add: saveNotesToStorage_def setItem_def)

lemma save_failed:
  "\<not> (accessible s \<and> length STORAGE_KEY + length (JSON_stringify ns) \<le> quota s) \<Longrightarrow>
   saveNotesToStorage ns s = s"
  by (auto simp add: saveNotesToStorage_def setItem_def)

text \<open>
  Claim C8, as the code has it. \<open>saveNotesToStorage\<close> ignores the error of a write
  that fails. When the storage can be accessed and has room for the key and the
  text of the notes, the write succeeds and \<open>loadNotesFromStorage\<close> then returns the
  notes that were saved, element for element and in the same order, whatever the
  four strings of each note are. When the write fails, the storage is left as it
  was, so that a load returns what was stored before.
\<close>

theorem C8_save_load:
  "(accessible s \<and> length STORAGE_KEY + length (JSON_stringify ns) \<le> quota s \<longrightarrow>
      loadNotesFromStorage env (saveNotesToStorage ns s) = ns) \<and>
   (\<not> (accessible s \<and> length STORAGE_KEY + length (JSON_stringify ns) \<le> quota s) \<longrightarrow>
      saveNotesToStorage ns s = s)"
proof (intro conjI impI)
  assume a: "accessible s \<and> length STORAGE_KEY + length (JSON_stringify ns) \<le> quota s"
  then have "saveNotesToStorage ns s = s\<lparr>item := Some (JSON_stringify ns)\<rparr>"
    by (simp add: save_written)
  moreover have "loadNotesFromStorage env (s\<lparr>item := Some (JSON_stringify ns)\<rparr>) = ns"
    using a by (intro load_stored) simp_all
  ultimately show "loadNotesFromStorage env (saveNotesToStorage ns s) = ns"
    by simp
next
  assume "\<not> (accessible s \<and> length STORAGE_KEY + length (JSON_stringify ns) \<le> quota s)"
  then show "saveNotesToStorage ns s = s"
    by (rule save_failed)
qed

theorem C8_save_load_witness:
  "accessible roomyStore \<and>
   quota roomyStore = length STORAGE_KEY + length (JSON_stringify [note_a, note_b]) \<and>
   loadNotesFromStorage env0 (saveNotesToStorage [note_a, note_b] roomyStore) = [note_a, note_b] \<and>
   accessible fullStore \<and> quota fullStore = 0 \<and> length STORAGE_KEY = 16 \<and>
   saveNotesToStorage [note_a] fullStore = fullStore"
proof -
  have a: "accessible roomyStore"
    and q: "quota roomyStore = length STORAGE_KEY + length (JSON_stringify [note_a, note_b])"
    by (simp_all add: roomyStore_def)
  from a q have h: "accessible roomyStore \<and>
      length STORAGE_KEY + length (JSON_stringify [note_a, note_b]) \<le> quota roomyStore"
    by simp
  have 1: "loadNotesFromStorage env0 (saveNotesToStorage [note_a, note_b] roomyStore) = [note_a, note_b]"
    using C8_save_load [of roomyStore "[note_a, note_b]" env0, THEN conjunct1] h by (rule mp)
  have k: "length STORAGE_KEY = 16"
    by (simp add: STORAGE_KEY_def js_def)
  have f: "accessible fullStore" "quota fullStore = 0"
    by (simp_all add: fullStore_def)
  have n: "\<not> (accessible fullStore \<and> length STORAGE_KEY + length (JSON_stringify [note_a]) \<le> quota fullStore)"
    by (simp add: f k)
  have 2: "saveNotesToStorage [note_a] fullStore = fullStore"
    using C8_save_load [of fullStore "[note_a]" env0, THEN conjunct2] n by (rule mp)
  from a q 1 f k 2 show ?thesis
    by (intro conjI)
qed

text \<open>
  The claim C8 as stated fails when the write fails: the storage has no room, the
  save of one note leaves it without an item, and the load returns the empty
  collection.
\<close>

theorem C8_counterexample:
  "loadNotesFromStorage env0 (saveNotesToStorage [note_a] fullStore) = [] \<and> [note_a] \<noteq> []"
proof -
  have "length STORAGE_KEY = 16"
    by (simp add: STORAGE_KEY_def js_def)
  then have "saveNotesToStorage [note_a] fullStore = fullStore"
    by (simp add: saveNotesToStorage_def setItem_def fullStore_def)
  then show ?thesis
    by (simp add: loadNotesFromStorage_def getItem_def fullStore_def)
qed

section \<open>Blank notes and the storage\<close>

lemma parse_blob:
  \<open>JSON_parse (js ''[{"id":"a"}]'') = Inr (JArray [JObject [(js ''id'', JString (js ''a''))]])\<close>
  by (simp add: JSON_parse_def js_def parseValue.simps parseElements.simps parseMembers.simps
      parseChars.simps skipWS_def isJSONWhiteSpace_def consTo_def)

lemma load_blob: "loadNotesFromStorage env0 blobStore = [note_loaded]"
proof -
  have "coerceNote env0 0 (JObject [(js ''id'', JString (js ''a''))]) = Inr note_loaded"
    by (simp add: coerceNote_def nullish_def env0_def note_loaded_def)
  then show ?thesis
    by (simp add: loadNotesFromStorage_def getItem_def blobStore_def parse_blob isObject_def)
       (simp add: js_def)
qed

lemma dropWhile_rev_prefix: "\<exists>z. t = rev (dropWhile P (rev t)) @ z"
proof -
  have "rev t = takeWhile P (rev t) @ dropWhile P (rev t)"
    by simp
  then have "rev (rev t) = rev (takeWhile P (rev t) @ dropWhile P (rev t))"
    by (rule arg_cong)
  then have "t = rev (dropWhile P (rev t)) @ rev (takeWhile P (rev t))"
    by (simp only: rev_rev_ident rev_append)
  then show ?thesis ..
qed

lemma trim_idem: "trim (trim s) = trim s"
proof -
  define t where "t = dropWhile isWhiteSpace s"
  define u where "u = rev (dropWhile isWhiteSpace (rev t))"
  have tu: "trim s = u"
    by (simp add: trim_def t_def u_def)
  have 1: "dropWhile isWhiteSpace u = u"
  proof (cases u)
    case Nil
    then show ?thesis by simp
  next
    case (Cons x xs)
    obtain z where "t = u @ z"
      unfolding u_def using dropWhile_rev_prefix by blast
    with Cons have t: "dropWhile isWhiteSpace s = x # xs @ z"
      by (simp add: t_def)
    have "\<not> isWhiteSpace (hd (dropWhile isWhiteSpace s))"
      by (rule hd_dropWhile) (simp add: t)
    then have "\<not> isWhiteSpace x"
      by (simp add: t)
    with Cons show ?thesis by simp
  qed
  have 2: "dropWhile isWhiteSpace (rev u) = rev u"
    by (simp add: u_def)
  show ?thesis
    unfolding tu by (simp add: trim_def 1 2)
qed

lemma trim_Untitled: "trim Untitled = Untitled" "Untitled \<noteq> []"
  by (simp_all add: trim_def Untitled_def js_def isWhiteSpace_def)

lemma trim_orElse: "trim (orElse (trim t) Untitled) \<noteq> []"
  by (simp add: orElse_def trim_idem trim_Untitled)

lemma in_mapEdited:
  "n \<in> set (mapEdited r e t b now ns) \<Longrightarrow> n \<in> set ns \<or> title_n (snd n) = t"
  by (induction ns arbitrary: r) (auto split: if_splits)

lemma saveCurrent_notes_cases:
  "notes_st (saveCurrent now dateNow rnd st) = notes_st st \<or>
   (\<exists>h n. notes_st (saveCurrent now dateNow rnd st) = (h, n) # notes_st st \<and>
        title_n n = orElse (trim (title st)) Untitled) \<or>
   (\<exists>h e b. notes_st (saveCurrent now dateNow rnd st) =
        mapEdited h e (orElse (trim (title st)) Untitled) b now (notes_st st))"
proof (cases "trim (title st) = [] \<and> trim (body st) = []")
  case True
  then show ?thesis by (simp add: saveCurrent_def)
next
  case blank: False
  show ?thesis
  proof (cases "editingId st = Some NEW")
    case True
    with blank have "notes_st (saveCurrent now dateNow rnd st) =
        (heap st, \<lparr>id_n = generateId dateNow rnd, title_n = orElse (trim (title st)) Untitled,
                    body_n = trim (body st), updatedAt = now\<rparr>) # notes_st st"
      by (auto simp add: saveCurrent_def Let_def)
    then show ?thesis by simp
  next
    case new: False
    show ?thesis
    proof (cases "editingId st")
      case None
      with blank show ?thesis by (auto simp add: saveCurrent_def Let_def)
    next
      case (Some e)
      show ?thesis
      proof (cases "e = []")
        case True
        with blank new Some show ?thesis by (auto simp add: saveCurrent_def Let_def)
      next
        case False
        with blank new Some have "notes_st (saveCurrent now dateNow rnd st) =
            mapEdited (heap st) e (orElse (trim (title st)) Untitled) (trim (body st)) now (notes_st st)"
          by (auto simp add: saveCurrent_def Let_def)
        then show ?thesis by blast
      qed
    qed
  qed
qed

lemma saveCurrent_new_notes:
  assumes "m \<in> set (list_notes (saveCurrent now dateNow rnd st))" and "m \<notin> set (list_notes st)"
  shows "trim (title_n m) \<noteq> []"
proof -
  from assms(1) obtain r where r: "(r, m) \<in> set (notes_st (saveCurrent now dateNow rnd st))"
    by (auto simp add: list_notes_def)
  from assms(2) have o: "(r, m) \<notin> set (notes_st st)"
    by (force simp add: list_notes_def)
  from saveCurrent_notes_cases [of now dateNow rnd st]
  have "title_n m = orElse (trim (title st)) Untitled"
  proof (elim disjE exE conjE)
    assume "notes_st (saveCurrent now dateNow rnd st) = notes_st st"
    with r o show ?thesis by simp
  next
    fix h n
    assume "notes_st (saveCurrent now dateNow rnd st) = (h, n) # notes_st st"
      and "title_n n = orElse (trim (title st)) Untitled"
    with r o show ?thesis by auto
  next
    fix h e b
    assume "notes_st (saveCurrent now dateNow rnd st) =
        mapEdited h e (orElse (trim (title st)) Untitled) b now (notes_st st)"
    with r have "(r, m) \<in> set (mapEdited h e (orElse (trim (title st)) Untitled) b now (notes_st st))"
      by simp
    from in_mapEdited [OF this] o show ?thesis by simp
  qed
  then show ?thesis
    by (simp add: trim_orElse)
qed

lemma list_notes_dispatch: "list_notes (dispatch ev st) = list_notes (handler ev st)"
  by (simp add: dispatch_def list_notes_def)

lemma blank_step:
  assumes "n \<in> set (list_notes (dispatch ev st))"
    and "trim (title_n n) = []"
  shows "n \<in> set (list_notes st)"
proof -
  from assms(1) have h: "n \<in> set (list_notes (handler ev st))"
    by (simp add: list_notes_dispatch)
  show ?thesis
  proof (cases ev)
  case (SaveCurrent now dateNow rnd)
  with h assms(2) saveCurrent_new_notes [of n now dateNow rnd st] show ?thesis
    by auto
next
  case (DeleteNote x)
  have "notes_st (deleteNote x st) = filter (\<lambda>n. id_n (snd n) \<noteq> x) (notes_st st)"
    by (simp add: deleteNote_def cancelEdit_def Let_def)
  then have "set (list_notes (deleteNote x st)) \<subseteq> set (list_notes st)"
    by (auto simp add: list_notes_def)
  moreover from h DeleteNote have "n \<in> set (list_notes (deleteNote x st))"
    by simp
  ultimately show ?thesis
    by blast
next
  case StartNew
  from h show ?thesis by (simp add: StartNew list_notes_def startNew_def)
next
  case (StartEdit i)
  from h show ?thesis by (simp add: StartEdit list_notes_def startEdit_def)
next
  case CancelEdit
  from h show ?thesis by (simp add: CancelEdit list_notes_def cancelEdit_def)
next
  case (SetTitle v)
  from h show ?thesis by (simp add: SetTitle list_notes_def)
next
  case (SetBody v)
  from h show ?thesis by (simp add: SetBody list_notes_def)
next
  case (SetSearch v)
  from h show ?thesis by (simp add: SetSearch list_notes_def)
qed
qed

lemma blank_run:
  "n \<in> set (list_notes (run evs st)) \<Longrightarrow> trim (title_n n) = [] \<Longrightarrow> n \<in> set (list_notes st)"
proof (induction evs arbitrary: st)
  case Nil
  then show ?case by simp
next
  case (Cons ev evs)
  from Cons.prems have "n \<in> set (list_notes (run evs (dispatch ev st)))"
    by simp
  from Cons.IH [OF this Cons.prems(2)] have "n \<in> set (list_notes (dispatch ev st))" .
  then show ?case
    using Cons.prems(2) by (rule blank_step)
qed

lemma list_notes_mount: "list_notes (mount env s) = loadNotesFromStorage env s"
  by (simp add: mount_def list_notes_def Let_def enumerate_eq_zip)

lemma storage_handler: "storage (handler ev st) = storage st"
proof (cases ev)
  case (SaveCurrent now dateNow rnd)
  then show ?thesis
    by (cases "editingId st") (auto simp add: saveCurrent_def Let_def)
next
  case (DeleteNote x)
  then show ?thesis by (simp add: deleteNote_def cancelEdit_def Let_def)
qed (simp_all add: startNew_def startEdit_def cancelEdit_def)

lemma runEffects_storage:
  "storage (runEffects prev next) = storage (saveEffect prev next)"
  by (cases "editingNote next") (simp_all add: runEffects_def Let_def)

lemma storage_dispatch:
  "storage (dispatch ev st) =
     (if notesRef (handler ev st) \<noteq> notesRef st
      then saveNotesToStorage (list_notes (dispatch ev st)) (storage st)
      else storage st)"
  by (simp add: dispatch_def runEffects_storage saveEffect_def storage_handler list_notes_def)

text \<open>
  Claim C1, as the code has it. \<open>saveCurrent\<close> never adds a blank note: a note that
  is in the collection after a save and was not there before has a title that is
  not empty after trimming. So over any sequence of events after the first render,
  a note of the collection whose title and body are both empty after trimming is
  one of the notes that \<open>loadNotesFromStorage\<close> returned. Such a note is not held
  back from the storage: the storage after an event is the storage before, or the
  result of \<open>saveNotesToStorage\<close> on the whole collection, and the first render
  saves the whole loaded collection.
\<close>

theorem C1_blank_only_from_load:
  "(n \<in> set (list_notes (run evs (mount env s))) \<and>
      trim (title_n n) = [] \<and> trim (body_n n) = [] \<longrightarrow>
      n \<in> set (loadNotesFromStorage env s)) \<and>
   (m \<in> set (list_notes (dispatch (SaveCurrent now dateNow rnd) st)) \<and>
      m \<notin> set (list_notes st) \<longrightarrow> trim (title_n m) \<noteq> []) \<and>
   (storage (dispatch ev st) = storage st \<or>
    storage (dispatch ev st) = saveNotesToStorage (list_notes (dispatch ev st)) (storage st)) \<and>
   storage (mount env s) = saveNotesToStorage (list_notes (mount env s)) s"
proof (intro conjI impI)
  assume "n \<in> set (list_notes (run evs (mount env s))) \<and>
      trim (title_n n) = [] \<and> trim (body_n n) = []"
  then have "n \<in> set (list_notes (mount env s))"
    using blank_run [of n evs "mount env s"] by simp
  then show "n \<in> set (loadNotesFromStorage env s)"
    by (simp add: list_notes_mount)
next
  assume "m \<in> set (list_notes (dispatch (SaveCurrent now dateNow rnd) st)) \<and>
      m \<notin> set (list_notes st)"
  then show "trim (title_n m) \<noteq> []"
    using saveCurrent_new_notes [of m now dateNow rnd st] by (simp add: list_notes_dispatch)
next
  show "storage (dispatch ev st) = storage st \<or>
    storage (dispatch ev st) = saveNotesToStorage (list_notes (dispatch ev st)) (storage st)"
    by (simp add: storage_dispatch)
next
  show "storage (mount env s) = saveNotesToStorage (list_notes (mount env s)) s"
    by (simp add: list_notes_mount) (simp add: mount_def Let_def)
qed

theorem C1_blank_only_from_load_witness:
  "note_loaded \<in> set (list_notes (run [StartNew, CancelEdit] (mount env0 blobStore))) \<and>
   trim (title_n note_loaded) = [] \<and> trim (body_n note_loaded) = [] \<and>
   note_loaded \<in> set (loadNotesFromStorage env0 blobStore) \<and>
   list_notes (dispatch (SaveCurrent (js ''t1'') 17 (js ''0.8f'')) creatingNEW) = [note_draft, note_NEW] \<and>
   list_notes creatingNEW = [note_NEW] \<and>
   trim (title_n note_draft) = js ''draft''"
proof -
  have l: "list_notes (mount env0 blobStore) = [note_loaded]"
    by (simp add: list_notes_mount load_blob)
  have s1: "list_notes (dispatch StartNew st) = list_notes st" for st
    unfolding list_notes_dispatch by (simp add: list_notes_def startNew_def)
  have s2: "list_notes (dispatch CancelEdit st) = list_notes st" for st
    unfolding list_notes_dispatch by (simp add: list_notes_def cancelEdit_def)
  have "list_notes (run [StartNew, CancelEdit] (mount env0 blobStore)) =
        list_notes (mount env0 blobStore)"
    by (simp add: s1 s2)
  with l have 1: "note_loaded \<in> set (list_notes (run [StartNew, CancelEdit] (mount env0 blobStore)))"
    by simp
  have 2: "trim (title_n note_loaded) = []" "trim (body_n note_loaded) = []"
    by (simp_all add: note_loaded_def trim_def)
  from 1 2 have h: "note_loaded \<in> set (list_notes (run [StartNew, CancelEdit] (mount env0 blobStore))) \<and>
      trim (title_n note_loaded) = [] \<and> trim (body_n note_loaded) = []"
    by (intro conjI)
  have 3: "note_loaded \<in> set (loadNotesFromStorage env0 blobStore)"
    using C1_blank_only_from_load [where n = note_loaded and evs = "[StartNew, CancelEdit]"
        and env = env0 and s = blobStore, THEN conjunct1] h by (rule mp)
  have a: "editingId creatingNEW = Some NEW"
    by (simp add: creatingNEW_def)
  have b: "trim (title creatingNEW) = js ''draft''"
    by (simp add: creatingNEW_def trim_def js_def isWhiteSpace_def)
  have c: "trim (title creatingNEW) \<noteq> [] \<or> trim (body creatingNEW) \<noteq> []"
    by (simp add: b) (simp add: js_def)
  have d: "generateId 17 (js ''0.8f'') = js ''17_8f''"
    by (simp add: generateId_def digits.simps js_def)
  have e: "trim (body creatingNEW) = []"
    by (simp add: creatingNEW_def trim_def)
  have f: "js ''draft'' \<noteq> []"
    by (simp add: js_def)
  have 5: "list_notes creatingNEW = [note_NEW]"
    by (simp add: list_notes_def creatingNEW_def)
  have 4: "list_notes (dispatch (SaveCurrent (js ''t1'') 17 (js ''0.8f'')) creatingNEW) = [note_draft, note_NEW]"
    unfolding dispatch_save_new [OF a c]
    by (simp add: list_notes_def b d e f orElse_def note_draft_def) (simp add: creatingNEW_def)
  have g: "note_draft \<noteq> note_NEW"
    by (simp add: note_draft_def note_NEW_def NEW_def js_def)
  have m: "note_draft \<in> set (list_notes (dispatch (SaveCurrent (js ''t1'') 17 (js ''0.8f'')) creatingNEW)) \<and>
      note_draft \<notin> set (list_notes creatingNEW)"
    by (simp add: 4 5 g)
  have "trim (title_n note_draft) \<noteq> []"
    using C1_blank_only_from_load [where m = note_draft and now = "js ''t1''" and dateNow = 17
        and rnd = "js ''0.8f''" and st = creatingNEW, THEN conjunct2, THEN conjunct1] m by (rule mp)
  have 6: "trim (title_n note_draft) = js ''draft''"
    by (simp add: note_draft_def trim_def js_def isWhiteSpace_def)
  from 1 2 3 4 5 6 show ?thesis
    by (intro conjI)
qed

text \<open>
  The claim C1 as stated fails for a stored item that holds an object without title
  and body: \<open>loadNotesFromStorage\<close> makes a note with both fields empty of it, and
  the save effect of the first render writes that note to the storage.
\<close>

theorem C1_counterexample:
  "list_notes (mount env0 blobStore) = [note_loaded] \<and>
   trim (title_n note_loaded) = [] \<and> trim (body_n note_loaded) = [] \<and>
   item (storage (mount env0 blobStore)) = Some (JSON_stringify [note_loaded])"
proof -
  have 1: "list_notes (mount env0 blobStore) = [note_loaded]"
    by (simp add: mount_def Let_def list_notes_def load_blob)
  have 2: "trim (title_n note_loaded) = []" "trim (body_n note_loaded) = []"
    by (simp_all add: note_loaded_def trim_def)
  have a: "accessible blobStore"
    and q: "length STORAGE_KEY + length (JSON_stringify [note_loaded]) \<le> quota blobStore"
    by (simp_all add: blobStore_def)
  have "storage (mount env0 blobStore) = saveNotesToStorage [note_loaded] blobStore"
    by (simp add: mount_def Let_def load_blob)
  then have 3: "item (storage (mount env0 blobStore)) = Some (JSON_stringify [note_loaded])"
    by (simp add: save_written [OF a q])
  from 1 2 3 show ?thesis
    by (intro conjI)
qed

end
